theory Spec2Isabelle
  imports Main "HOL-Library.Sublist"
begin

section \<open>Python strings\<close>

text \<open>
  A Python \<open>str\<close> is modelled as a \<open>string\<close>; a \<open>char\<close> stands for the code point of the
  same number, so the model covers the texts whose code points are below 256. In that
  range the characters that \<open>str.isspace\<close> accepts are 9 to 13, 28 to 32, 133 and 160, the
  line boundaries of \<open>str.splitlines\<close> are 10 to 13, 28 to 30 and 133 (with CR LF as one
  boundary), and the decimal digits matched by \<open>\d\<close> and read by \<open>int\<close> are 0 to 9.
  Python integers are unbounded; counts and spans are never negative and are \<open>nat\<close>.
\<close>

definition LF :: char where
  "LF = CHR 0x0A"

definition CR :: char where
  "CR = CHR 0x0D"

definition BACKSLASH :: char where
  "BACKSLASH = CHR 0x5C"

definition is_space :: "char \<Rightarrow> bool" where
  "is_space c =
     (let n = (of_char c :: nat)
      in (9 \<le> n \<and> n \<le> 13) \<or> (28 \<le> n \<and> n \<le> 32) \<or> n = 133 \<or> n = 160)"

definition is_linebreak :: "char \<Rightarrow> bool" where
  "is_linebreak c =
     (let n = (of_char c :: nat)
      in (10 \<le> n \<and> n \<le> 13) \<or> (28 \<le> n \<and> n \<le> 30) \<or> n = 133)"

definition is_digit :: "char \<Rightarrow> bool" where
  "is_digit c = (c \<in> set ''0123456789'')"

text \<open>\<open>text.splitlines(keepends=True)\<close>: every line keeps its boundary; the last line may
  have none.\<close>

fun splitlines :: "string \<Rightarrow> string list" where
  "splitlines [] = []"
| "splitlines (c # cs) =
     (if is_linebreak c then
        (case cs of
           [] \<Rightarrow> [[c]]
         | c2 # cs2 \<Rightarrow>
             if c = CR \<and> c2 = LF then [c, c2] # splitlines cs2
             else [c] # splitlines cs)
      else
        (case splitlines cs of
           [] \<Rightarrow> [[c]]
         | l # ls \<Rightarrow> (c # l) # ls))"

text \<open>\<open>s.startswith(p)\<close> is \<open>prefix p s\<close>.\<close>

definition rstrip :: "string \<Rightarrow> string" where
  "rstrip s = rev (dropWhile is_space (rev s))"

definition rstrip_nl :: "string \<Rightarrow> string" where
  \<comment> \<open>\<open>s.rstrip("\n")\<close>\<close>
  "rstrip_nl s = rev (dropWhile (\<lambda>c. c = LF) (rev s))"

definition strip :: "string \<Rightarrow> string" where
  "strip s = dropWhile is_space (rstrip s)"

definition digit_char :: "nat \<Rightarrow> char" where
  "digit_char d = ''0123456789'' ! d"

fun str_nat :: "nat \<Rightarrow> string" where
  \<comment> \<open>the decimal digits of a number\<close>
  "str_nat n =
     (if n < 10 then [digit_char n]
      else str_nat (n div 10) @ [digit_char (n mod 10)])"

declare str_nat.simps [simp del]

definition digit_val :: "char \<Rightarrow> nat" where
  "digit_val c = (of_char c :: nat) - 48"

definition int_of_digits :: "string \<Rightarrow> nat" where
  \<comment> \<open>the number that a run of decimal digits denotes\<close>
  "int_of_digits s = foldl (\<lambda>n c. 10 * n + digit_val c) 0 s"

text \<open>
  CPython limits the conversion between \<open>int\<close> and \<open>str\<close>: \<open>int(s)\<close> raises \<open>ValueError\<close>
  when \<open>s\<close> holds more than \<open>sys.get_int_max_str_digits()\<close> digits, leading zeros counted,
  and so does \<open>str(n)\<close>, which the f-string calls, when \<open>n\<close> has more digits than that.
  The limit is the interpreter's default, 4300. No caller in the program catches the
  error.
\<close>

datatype py_error = ValueError | UnboundLocalError

definition int_max_str_digits :: nat where
  "int_max_str_digits = 4300"

definition py_int :: "string \<Rightarrow> py_error + nat" where
  \<comment> \<open>\<open>int(s)\<close> on a non-empty run of decimal digits\<close>
  "py_int s = (if int_max_str_digits < length s then Inl ValueError else Inr (int_of_digits s))"

definition py_str :: "nat \<Rightarrow> py_error + string" where
  \<comment> \<open>\<open>str(n)\<close>, as the f-string formats a count\<close>
  "py_str n = (if int_max_str_digits < length (str_nat n) then Inl ValueError else Inr (str_nat n))"

section \<open>The action plan\<close>

datatype jvalue = JNone | JInt int | JStr string

record event =
  code :: string
  phase :: string
  message :: string
  iteration :: nat
  data :: "(string \<times> jvalue) list option"

text \<open>\<open>log\<close> appends one entry to the global \<open>ACTION_PLAN\<close>, stamped with the global
  \<open>CURRENT_ITERATION\<close>. Here every function takes the current iteration and returns the
  entries it appends, in order. A function that may raise returns \<open>Inl\<close> the error, or
  \<open>Inr\<close> its result paired with the entries.\<close>

definition log :: "nat \<Rightarrow> string \<Rightarrow> string \<Rightarrow> string \<Rightarrow> (string \<times> jvalue) list \<Rightarrow> event" where
  "log it c p m extra =
     \<lparr>code = c, phase = p, message = m, iteration = it,
      data = (if extra = [] then None else Some extra)\<rparr>"

definition escape_newlines :: "string \<Rightarrow> string" where
  \<comment> \<open>\<open>text.replace("\n", "\\n")\<close>\<close>
  "escape_newlines s = concat (map (\<lambda>c. if c = LF then [BACKSLASH, CHR ''n''] else [c]) s)"

definition preview :: "string \<Rightarrow> string" where
  \<comment> \<open>called with the default \<open>max_len = 80\<close> everywhere\<close>
  "preview s =
     (let t = escape_newlines s
      in if length t \<le> 80 then t else take 80 t @ ''...'')"

section \<open>The cleaner\<close>

fun find_preamble :: "nat \<Rightarrow> string list \<Rightarrow> nat option" where
  "find_preamble i [] = None"
| "find_preamble i (line # ls) =
     (if prefix ''diff --git '' line then Some i else find_preamble (Suc i) ls)"

definition strip_preamble :: "nat \<Rightarrow> string list \<Rightarrow> string list \<times> event" where
  "strip_preamble it lines =
     (case find_preamble 0 lines of
        Some (Suc k) \<Rightarrow>
          (drop (Suc k) lines,
           log it ''PREAMBLE_STRIPPED'' ''basic_clean''
             ''Stripped preamble before first diff --git''
             [(''removed_lines'', JInt (int (Suc k)))])
      | _ \<Rightarrow>
          (lines,
           log it ''PREAMBLE_NONE'' ''basic_clean''
             ''No preamble detected before first diff --git'' []))"

definition normalize_line :: "string \<Rightarrow> string" where
  \<comment> \<open>\<open>line.rstrip("\n").rstrip() + "\n"\<close>\<close>
  "normalize_line line = rstrip (rstrip_nl line) @ [LF]"

definition trimmed_event :: "nat \<Rightarrow> nat \<Rightarrow> string \<Rightarrow> event" where
  "trimmed_event it lineno line =
     log it ''WHITESPACE_TRIMMED'' ''basic_clean'' ''Trimmed trailing whitespace on line''
       [(''line_number'', JInt (int lineno)), (''original_preview'', JStr (preview line))]"

fun trim_loop :: "nat \<Rightarrow> nat \<Rightarrow> string list \<Rightarrow> string list \<times> nat \<times> event list" where
  "trim_loop it lineno [] = ([], 0, [])"
| "trim_loop it lineno (line # ls) =
     (case trim_loop it (Suc lineno) ls of
        (cleaned, trimmed, evs) \<Rightarrow>
          if rstrip line \<noteq> line
          then (normalize_line line # cleaned, Suc trimmed, trimmed_event it lineno line # evs)
          else (normalize_line line # cleaned, trimmed, evs))"

function drop_eof :: "string list \<Rightarrow> nat \<Rightarrow> string list \<times> nat" where
  "drop_eof lines dropped =
     (if lines \<noteq> [] \<and> prefix ''+'' (last lines) \<and> strip (last lines) = ''+''
      then drop_eof (butlast lines) (Suc dropped)
      else (lines, dropped))"
  by pat_completeness auto
termination
  by (relation "measure (\<lambda>(lines, dropped). length lines)") auto

declare drop_eof.simps [simp del]

definition basic_clean :: "nat \<Rightarrow> string \<Rightarrow> string list \<times> event list" where
  "basic_clean it text =
     (let lines0 = splitlines text;
          e_start = log it ''BASIC_CLEAN_START'' ''basic_clean'' ''Starting basic_clean''
                      [(''line_count'', JInt (int (length lines0)))];
          (lines1, e_pre) = strip_preamble it lines0;
          (cleaned, trimmed, e_trim) = trim_loop it 1 lines1;
          e_sum = log it ''WHITESPACE_TRIM_SUMMARY'' ''basic_clean''
                    ''Trailing whitespace trimming summary''
                    [(''trimmed_lines'', JInt (int trimmed))];
          (lines2, dropped) = drop_eof cleaned 0;
          e_drop = log it ''EOF_PLUS_BLANK_DROPPED'' ''basic_clean''
                     ''Dropped trailing '+ blank' lines at EOF''
                     [(''dropped_lines'', JInt (int dropped))];
          e_end = log it ''BASIC_CLEAN_END'' ''basic_clean'' ''Finished basic_clean''
                    [(''line_count'', JInt (int (length lines2)))]
      in (lines2, [e_start, e_pre] @ e_trim @ [e_sum, e_drop, e_end]))"

section \<open>The patch document and the parser\<close>

record Hunk =
  header :: string
  body :: "string list"

record FileDiff =
  fd_header :: string
  headers :: "string list"
  hunks :: "Hunk list"

text \<open>\<open>current_file\<close> is, when set, the object appended last to \<open>files\<close>, and
  \<open>current_hunk\<close> is, when set, the object appended last to its \<open>hunks\<close>: the parser
  state is the list of files and whether each cursor is set, and a write through a cursor
  is a write to the last element.\<close>

definition upd_last :: "('a \<Rightarrow> 'a) \<Rightarrow> 'a list \<Rightarrow> 'a list" where
  "upd_last f xs = (if xs = [] then [] else butlast xs @ [f (last xs)])"

type_synonym pstate = "FileDiff list \<times> bool \<times> bool"

definition parse_step :: "nat \<Rightarrow> nat \<Rightarrow> pstate \<Rightarrow> string \<Rightarrow> pstate \<times> event" where
  "parse_step it lineno st line =
     (case st of (files, has_file, has_hunk) \<Rightarrow>
        if prefix ''diff --git '' line then
          ((files @ [\<lparr>fd_header = line, headers = [], hunks = []\<rparr>], True, False),
           log it ''PARSE_FILE_START'' ''parse'' ''Detected new file diff section''
             [(''line_number'', JInt (int lineno)), (''diff_header_preview'', JStr (preview line))])
        else if \<not> has_file then
          ((files, has_file, has_hunk),
           log it ''PARSE_ORPHAN_LINE'' ''parse'' ''Line before any diff section (ignored)''
             [(''line_number'', JInt (int lineno)), (''text_preview'', JStr (preview line))])
        else if prefix ''@@ '' line then
          ((upd_last (\<lambda>f. f\<lparr>hunks := hunks f @ [\<lparr>header = line, body = []\<rparr>]\<rparr>) files,
            has_file, True),
           log it ''PARSE_HUNK_HEADER'' ''parse'' ''Detected hunk header''
             [(''line_number'', JInt (int lineno)), (''header_preview'', JStr (preview line))])
        else if has_hunk then
          ((upd_last (\<lambda>f. f\<lparr>hunks := upd_last (\<lambda>h. h\<lparr>body := body h @ [line]\<rparr>) (hunks f)\<rparr>)
              files,
            has_file, has_hunk),
           log it ''PARSE_HUNK_BODY_LINE'' ''parse'' ''Recorded hunk body line''
             [(''line_number'', JInt (int lineno)), (''text_preview'', JStr (preview line))])
        else
          ((upd_last (\<lambda>f. f\<lparr>headers := headers f @ [line]\<rparr>) files, has_file, has_hunk),
           log it ''PARSE_FILE_HEADER_LINE'' ''parse'' ''Recorded file header line''
             [(''line_number'', JInt (int lineno)), (''text_preview'', JStr (preview line))]))"

fun parse_loop :: "nat \<Rightarrow> nat \<Rightarrow> pstate \<Rightarrow> string list \<Rightarrow> pstate \<times> event list" where
  "parse_loop it lineno st [] = (st, [])"
| "parse_loop it lineno st (line # ls) =
     (case parse_step it lineno st line of
        (st1, e) \<Rightarrow>
          (case parse_loop it (Suc lineno) st1 ls of
             (st2, es) \<Rightarrow> (st2, e # es)))"

definition parse_diff :: "nat \<Rightarrow> string list \<Rightarrow> FileDiff list \<times> event list" where
  "parse_diff it lines =
     (case parse_loop it 1 ([], False, False) lines of
        ((files, has_file, has_hunk), es) \<Rightarrow>
          (files,
           es @ [log it ''PARSE_SUMMARY'' ''parse'' ''Finished parsing patch''
                   [(''file_count'', JInt (int (length files)))]]))"

section \<open>Counting body lines\<close>

definition count_step :: "nat \<times> nat \<times> nat \<times> bool \<Rightarrow> string \<Rightarrow> nat \<times> nat \<times> nat \<times> bool" where
  "count_step acc line =
     (case acc of (context, removed, added, has_unexpected) \<Rightarrow>
        if prefix '' '' line then (Suc context, removed, added, has_unexpected)
        else if prefix ''-'' line then (context, Suc removed, added, has_unexpected)
        else if prefix ''+'' line \<and> strip line \<noteq> ''+''
          then (context, removed, Suc added, has_unexpected)
        else if prefix (BACKSLASH # '' No newline at end of file'') line
          then (context, removed, added, has_unexpected)
        else (context, removed, added, True))"

definition count_body_lines :: "Hunk \<Rightarrow> nat \<times> nat \<times> nat \<times> bool" where
  "count_body_lines hunk = foldl count_step (0, 0, 0, False) (body hunk)"

section \<open>The hunk header pattern\<close>

text \<open>
  The pattern \<open>@@ -\d+,\d+ \+\d+,\d+ @@\<close>, matched at the start of a string. Each \<open>\d+\<close>
  is followed by a literal that is not a digit, so the only way to match is to take the
  whole run of digits: the greedy run below needs no backtracking. The result holds the
  digits of the two span groups and the text after the match.
\<close>

definition lit :: "string \<Rightarrow> string \<Rightarrow> string option" where
  "lit p s = (if prefix p s then Some (drop (length p) s) else None)"

definition digits1 :: "string \<Rightarrow> (string \<times> string) option" where
  "digits1 s =
     (let ds = takeWhile is_digit s
      in if ds = [] then None else Some (ds, dropWhile is_digit s))"

definition match_header :: "string \<Rightarrow> (string \<times> string \<times> string) option" where
  "match_header s =
     Option.bind (lit ''@@ -'' s) (\<lambda>s1.
     Option.bind (digits1 s1) (\<lambda>(old_start, s2).
     Option.bind (lit '','' s2) (\<lambda>s3.
     Option.bind (digits1 s3) (\<lambda>(old, s4).
     Option.bind (lit '' +'' s4) (\<lambda>s5.
     Option.bind (digits1 s5) (\<lambda>(new_start, s6).
     Option.bind (lit '','' s6) (\<lambda>s7.
     Option.bind (digits1 s7) (\<lambda>(new, s8).
     Option.bind (lit '' @@'' s8) (\<lambda>rest.
     Some (old, new, rest))))))))))"

text \<open>\<open>re.sub(pattern, repl, s)\<close>: every occurrence, leftmost first and not overlapping,
  is replaced by \<open>repl\<close> (which holds no backslash, so it is taken literally).\<close>

function re_sub_header :: "string \<Rightarrow> string \<Rightarrow> string" where
  "re_sub_header repl [] = []"
| "re_sub_header repl (c # cs) =
     (case match_header (c # cs) of
        Some (old, new, rest) \<Rightarrow> repl @ re_sub_header repl rest
      | None \<Rightarrow> c # re_sub_header repl cs)"
  by pat_completeness auto
termination
proof (relation "measure (\<lambda>(repl, s). length s)", goal_cases)
  case 1
  show ?case by simp
next
  case (2 repl c cs)
  show ?case by simp
next
  case (3 repl c cs x2 old y new rest)
  have d: "\<And>s ds r. digits1 s = Some (ds, r) \<Longrightarrow> length r \<le> length s"
    by (auto simp: digits1_def Let_def length_dropWhile_le split: if_splits)
  have l: "\<And>p s r. lit p s = Some r \<Longrightarrow> length r \<le> length s"
    by (auto simp: lit_def split: if_splits)
  from 3 have m: "match_header (c # cs) = Some (old, new, rest)"
    by simp
  then obtain s1 s2 s3 s4 s5 s6 s7 s8 a b where
    "lit ''@@ -'' (c # cs) = Some s1" "digits1 s1 = Some (a, s2)" "lit '','' s2 = Some s3"
    "digits1 s3 = Some (old, s4)" "lit '' +'' s4 = Some s5" "digits1 s5 = Some (b, s6)"
    "lit '','' s6 = Some s7" "digits1 s7 = Some (new, s8)" "lit '' @@'' s8 = Some rest"
    by (auto simp: match_header_def Option.bind_eq_Some_conv)
  then have "length rest \<le> length s1" "length s1 < length (c # cs)"
    by (auto simp: lit_def split: if_splits dest!: d)
  then show ?case by simp
qed

section \<open>The validator and the span repair\<close>

definition span_text :: "nat \<Rightarrow> nat \<Rightarrow> string" where
  \<comment> \<open>the text of \<open>f"@@ -0,{expected_old} +0,{expected_new} @@"\<close>\<close>
  "span_text expected_old expected_new =
     ''@@ -0,'' @ str_nat expected_old @ '' +0,'' @ str_nat expected_new @ '' @@''"

definition span_header :: "nat \<Rightarrow> nat \<Rightarrow> py_error + string" where
  \<comment> \<open>evaluating the f-string \<open>f"@@ -0,{expected_old} +0,{expected_new} @@"\<close>\<close>
  "span_header expected_old expected_new =
     (case py_str expected_old of
        Inl e \<Rightarrow> Inl e
      | Inr so \<Rightarrow>
          (case py_str expected_new of
             Inl e \<Rightarrow> Inl e
           | Inr sn \<Rightarrow> Inr (''@@ -0,'' @ so @ '' +0,'' @ sn @ '' @@'')))"

definition maybe_fix_span_header ::
  "nat \<Rightarrow> Hunk \<Rightarrow> string \<Rightarrow> nat \<Rightarrow> nat \<Rightarrow> nat \<Rightarrow> nat \<Rightarrow> nat
     \<Rightarrow> py_error + ((Hunk \<times> bool \<times> nat \<times> nat) \<times> event list)" where
  "maybe_fix_span_header it hunk file_header old_span new_span context removed added =
     (let expected_old = context + removed;
          expected_new = context + added
      in if expected_old \<noteq> old_span \<or> expected_new \<noteq> new_span then
           (case span_header expected_old expected_new of
              Inl e \<Rightarrow> Inl e
            | Inr repl \<Rightarrow>
                (let new_header = re_sub_header repl (header hunk)
                 in Inr ((hunk\<lparr>header := new_header\<rparr>, True, expected_old, expected_new),
                         [log it ''HUNK_HEADER_SPAN_REPAIRED'' ''validate''
                            ''Repaired hunk header span values''
                            [(''file_header_preview'', JStr (preview file_header)),
                             (''old_header_preview'', JStr (preview (header hunk))),
                             (''new_header_preview'', JStr (preview new_header)),
                             (''old_span'', JInt (int old_span)),
                             (''new_span'', JInt (int new_span)),
                             (''expected_old_span'', JInt (int expected_old)),
                             (''expected_new_span'', JInt (int expected_new))]])))
         else Inr ((hunk, False, old_span, new_span), []))"

definition mismatch_events ::
  "nat \<Rightarrow> string \<Rightarrow> string \<Rightarrow> string \<Rightarrow> string \<Rightarrow> string \<Rightarrow> Hunk \<Rightarrow> nat \<Rightarrow> nat \<Rightarrow> nat \<Rightarrow> nat
     \<Rightarrow> event list" where
  \<comment> \<open>the two \<open>if expected_... != ..._span: log(...)\<close> statements that close both rejecting
     paths; the paths differ in the messages and the hints\<close>
  "mismatch_events it file_header old_msg old_hint new_msg new_hint hunk
       expected_old old_span expected_new new_span =
     (if expected_old \<noteq> old_span then
        [log it ''HUNK_INVALID_OLD_SPAN_MISMATCH'' ''validate'' old_msg
           [(''file_header_preview'', JStr (preview file_header)),
            (''header_preview'', JStr (preview (header hunk))),
            (''expected_old_span'', JInt (int expected_old)),
            (''actual_old_span'', JInt (int old_span)),
            (''repair_hint'', JStr old_hint)]]
      else []) @
     (if expected_new \<noteq> new_span then
        [log it ''HUNK_INVALID_NEW_SPAN_MISMATCH'' ''validate'' new_msg
           [(''file_header_preview'', JStr (preview file_header)),
            (''header_preview'', JStr (preview (header hunk))),
            (''expected_new_span'', JInt (int expected_new)),
            (''actual_new_span'', JInt (int new_span)),
            (''repair_hint'', JStr new_hint)]]
      else [])"

text \<open>\<open>validate_hunk\<close> returns its verdict and the hunk as it leaves it (the header is
  the only field it ever writes), with the entries it logs; it raises where \<open>int\<close> or the
  f-string of the repair raises.\<close>

definition validate_hunk ::
  "nat \<Rightarrow> Hunk \<Rightarrow> string \<Rightarrow> bool \<Rightarrow> py_error + ((bool \<times> Hunk) \<times> event list)" where
  "validate_hunk it hunk file_header allow_repairs =
     (case match_header (header hunk) of
        None \<Rightarrow>
          Inr ((False, hunk),
           [log it ''HUNK_INVALID_MALFORMED_HEADER'' ''validate'' ''Hunk header is malformed''
              [(''file_header_preview'', JStr (preview file_header)),
               (''header_preview'', JStr (preview (header hunk))),
               (''repair_hint'',
                JStr ''REPAIR_RECONSTRUCT_MALFORMED_HEADER or regenerate diff.'')]])
      | Some (old, new, rest) \<Rightarrow>
          (case py_int old of
             Inl e \<Rightarrow> Inl e
           | Inr old_span \<Rightarrow>
          (case py_int new of
             Inl e \<Rightarrow> Inl e
           | Inr new_span \<Rightarrow>
          (case count_body_lines hunk of (context, removed, added, has_unexpected) \<Rightarrow>
             (let e_unexpected =
                    (if has_unexpected then
                       [log it ''HUNK_INVALID_UNEXPECTED_LINE'' ''validate''
                          ''Unexpected line type in hunk body''
                          [(''file_header_preview'', JStr (preview file_header)),
                           (''header_preview'', JStr (preview (header hunk))),
                           (''repair_hint'',
                            JStr ''REPAIR_REBUILD_HUNK_FROM_BODY or drop hunk.'')]]
                     else []);
                  expected_old = context + removed;
                  expected_new = context + added
              in if has_unexpected \<and> \<not> allow_repairs then Inr ((False, hunk), e_unexpected)
                 else if expected_old = old_span \<and> expected_new = new_span \<and> \<not> has_unexpected
                 then
                   Inr ((True, hunk),
                    e_unexpected @
                    [log it ''HUNK_VALID'' ''validate'' ''Hunk is structurally valid''
                       [(''file_header_preview'', JStr (preview file_header)),
                        (''header_preview'', JStr (preview (header hunk))),
                        (''old_span'', JInt (int old_span)),
                        (''new_span'', JInt (int new_span)),
                        (''context_lines'', JInt (int context)),
                        (''removed_lines'', JInt (int removed)),
                        (''added_lines'', JInt (int added))]])
                 else if \<not> allow_repairs then
                   Inr ((False, hunk),
                    e_unexpected @
                    mismatch_events it file_header
                      ''Old span mismatch in hunk header''
                      ''REPAIR_FIX_OLD_SPAN_HEADER or REPAIR_APPROXIMATE_HEADER_REWRITE.''
                      ''New span mismatch in hunk header''
                      ''REPAIR_FIX_NEW_SPAN_HEADER or REPAIR_APPROXIMATE_HEADER_REWRITE.''
                      hunk expected_old old_span expected_new new_span)
                 else
                   (case maybe_fix_span_header it hunk file_header old_span new_span
                           context removed added of
                      Inl e \<Rightarrow> Inl e
                    | Inr ((hunk2, repaired, old_span2, new_span2), e_fix) \<Rightarrow>
                        if repaired then
                          Inr ((True, hunk2),
                           e_unexpected @ e_fix @
                           [log it ''HUNK_VALID_AFTER_REPAIR'' ''validate''
                              ''Hunk became valid after header span repair''
                              [(''file_header_preview'', JStr (preview file_header)),
                               (''header_preview'', JStr (preview (header hunk2))),
                               (''old_span'', JInt (int old_span2)),
                               (''new_span'', JInt (int new_span2))]])
                        else
                          Inr ((False, hunk2),
                           e_unexpected @ e_fix @
                           mismatch_events it file_header
                             ''Old span mismatch in hunk header (repair failed)''
                             ''REPAIR_FIX_OLD_SPAN_HEADER or REPAIR_REGENERATE_DIFF_FOR_FILE.''
                             ''New span mismatch in hunk header (repair failed)''
                             ''REPAIR_FIX_NEW_SPAN_HEADER or REPAIR_REGENERATE_DIFF_FOR_FILE.''
                             hunk2 expected_old old_span expected_new new_span)))))))"

fun validate_hunks ::
  "nat \<Rightarrow> string \<Rightarrow> bool \<Rightarrow> Hunk list \<Rightarrow> py_error + (Hunk list \<times> event list)" where
  \<comment> \<open>the inner loop of \<open>filter_or_repair_files\<close>, collecting \<open>valid_hunks\<close>\<close>
  "validate_hunks it file_header allow_repairs [] = Inr ([], [])"
| "validate_hunks it file_header allow_repairs (hunk # hs) =
     (case validate_hunk it hunk file_header allow_repairs of
        Inl e \<Rightarrow> Inl e
      | Inr ((ok, hunk2), es) \<Rightarrow>
          (case validate_hunks it file_header allow_repairs hs of
             Inl e \<Rightarrow> Inl e
           | Inr (valid_hunks, es2) \<Rightarrow>
               Inr (if ok then hunk2 # valid_hunks else valid_hunks, es @ es2)))"

fun filter_loop :: "nat \<Rightarrow> bool \<Rightarrow> FileDiff list \<Rightarrow> py_error + (FileDiff list \<times> event list)" where
  "filter_loop it allow_repairs [] = Inr ([], [])"
| "filter_loop it allow_repairs (file_diff # fs) =
     (case validate_hunks it (fd_header file_diff) allow_repairs (hunks file_diff) of
        Inl e \<Rightarrow> Inl e
      | Inr (valid_hunks, es) \<Rightarrow>
          (case filter_loop it allow_repairs fs of
             Inl e \<Rightarrow> Inl e
           | Inr (result, es2) \<Rightarrow>
               if valid_hunks \<noteq> []
               then Inr (file_diff\<lparr>hunks := valid_hunks\<rparr> # result, es @ es2)
               else Inr (result,
                     es @
                     [log it ''FILE_DROPPED_NO_VALID_HUNKS'' ''validate''
                        ''Dropping file diff because it has no valid hunks''
                        [(''file_header_preview'', JStr (preview (fd_header file_diff))),
                         (''repair_hint'',
                          JStr ''REPAIR_REGENERATE_DIFF_FOR_FILE or REPAIR_REGENERATE_FULL_PATCH.'')]]
                     @ es2)))"

definition filter_or_repair_files ::
  "nat \<Rightarrow> FileDiff list \<Rightarrow> bool \<Rightarrow> py_error + (FileDiff list \<times> event list)" where
  "filter_or_repair_files it files allow_repairs =
     (case filter_loop it allow_repairs files of
        Inl e \<Rightarrow> Inl e
      | Inr (result, es) \<Rightarrow>
          Inr (result,
           es @ [log it ''FILTER_FILES_SUMMARY'' ''validate''
                   ''Finished validating/repairing hunks and filtering files''
                   [(''remaining_files'', JInt (int (length result)))]]))"

section \<open>The renderer\<close>

definition render_lines :: "FileDiff list \<Rightarrow> string list" where
  \<comment> \<open>the list \<open>out\<close>\<close>
  "render_lines files =
     concat (map (\<lambda>file_diff.
       fd_header file_diff # headers file_diff @
       concat (map (\<lambda>hunk. header hunk # body hunk) (hunks file_diff))) files)"

definition render_patch :: "nat \<Rightarrow> FileDiff list \<Rightarrow> string \<times> event list" where
  "render_patch it files =
     (let text = concat (render_lines files)
      in (text,
          [log it ''RENDER_SUMMARY'' ''render'' ''Rendered patch text from FileDiffs''
             [(''rendered_lines'', JInt (int (length (splitlines text))))]]))"

section \<open>The oracle and the modes\<close>

text \<open>
  \<open>git apply --check\<close> is an external process: \<open>git\<close> stands for one run of it, from the
  patch text to whether the return code was 0 and to the combined, stripped output. The
  iterative mode gives each round a run of its own. Reading the input file and writing the
  output file are outside the model: a mode takes the text read and returns the text
  written.
\<close>

definition git_validate :: "(string \<Rightarrow> bool \<times> string) \<Rightarrow> nat \<Rightarrow> string \<Rightarrow> string \<times> event list" where
  "git_validate git it patch_text =
     (case git patch_text of
        (returncode_zero, combined) \<Rightarrow>
          if returncode_zero then
            (''ok'',
             [log it ''GIT_VALIDATE_OK'' ''git_validate''
                ''git apply --check reports patch is structurally valid'' []])
          else
            (''error'',
             [log it ''GIT_VALIDATE_ERROR'' ''git_validate''
                ''git apply --check reports patch issues'' [(''stderr'', JStr combined)]]))"

definition repair_pass ::
  "nat \<Rightarrow> string \<Rightarrow> bool \<Rightarrow> py_error + ((FileDiff list \<times> string) \<times> event list)" where
  \<comment> \<open>the four calls \<open>basic_clean\<close>, \<open>parse_diff\<close>, \<open>filter_or_repair_files\<close>, \<open>render_patch\<close>
     that \<open>run_apply_once\<close> and every round of \<open>run_iterative\<close> make in a row\<close>
  "repair_pass it text allow_repairs =
     (case basic_clean it text of (cleaned_lines, es1) \<Rightarrow>
     (case parse_diff it cleaned_lines of (files, es2) \<Rightarrow>
     (case filter_or_repair_files it files allow_repairs of
        Inl e \<Rightarrow> Inl e
      | Inr (repaired_files, es3) \<Rightarrow>
          (case render_patch it repaired_files of (repaired_patch, es4) \<Rightarrow>
             Inr ((repaired_files, repaired_patch), es1 @ es2 @ es3 @ es4)))))"

definition jopt :: "string option \<Rightarrow> jvalue" where
  "jopt r = (case r of None \<Rightarrow> JNone | Some s \<Rightarrow> JStr s)"

record apply_summary =
  output_text :: string
  valid_files :: nat
  git_validation :: "string option"
  steps :: "event list"

definition run_apply_once ::
  "string \<Rightarrow> (string \<Rightarrow> bool \<times> string) \<Rightarrow> bool \<Rightarrow> py_error + apply_summary" where
  "run_apply_once original git validate_with_git =
     (case repair_pass 0 original True of
        Inl e \<Rightarrow> Inl e
      | Inr ((repaired_files, repaired_patch), es) \<Rightarrow>
          (case (if validate_with_git
                 then (case git_validate git 0 repaired_patch of (r, eg) \<Rightarrow> (Some r, eg))
                 else (None, [])) of
             (git_result, eg) \<Rightarrow>
               Inr \<lparr>output_text = repaired_patch,
                valid_files = length repaired_files,
                git_validation = git_result,
                steps = es @ eg @
                  [log 0 ''PLAN_SUMMARY'' ''meta'' ''Single-pass repair completed''
                     [(''valid_files'', JInt (int (length repaired_files))),
                      (''git_validation'', jopt git_result)]]\<rparr>))"

record iter_state =
  patch_text :: string
  git_result :: "string option"
  last_patch_text :: "string option"
  loop_iteration :: "nat option"
  plan :: "event list"

text \<open>The \<open>for iteration in range(max_iterations)\<close> loop over the values still to come.
  \<open>loop_iteration\<close> is the variable \<open>iteration\<close>, unbound until the first round binds it;
  a \<open>break\<close> ends the recursion, and so does an error raised in the round.\<close>

fun iter_loop ::
  "(nat \<Rightarrow> string \<Rightarrow> bool \<times> string) \<Rightarrow> bool \<Rightarrow> nat list \<Rightarrow> iter_state \<Rightarrow> py_error + iter_state" where
  "iter_loop git validate_with_git [] st = Inr st"
| "iter_loop git validate_with_git (i # rest) st =
     (case repair_pass i (patch_text st) True of
        Inl e \<Rightarrow> Inl e
      | Inr ((repaired_files, new_patch_text), es) \<Rightarrow>
          (case (if validate_with_git
                 then (case git_validate (git i) i new_patch_text of (r, eg) \<Rightarrow> (Some r, eg))
                 else (git_result st, [])) of
             (gr, eg) \<Rightarrow>
               (let pl = plan st @
                      [log i ''ITERATION_START'' ''meta'' ''Starting repair iteration''
                         [(''iteration'', JInt (int i))]] @ es @ eg
                in if last_patch_text st = Some new_patch_text then
                     Inr (st\<lparr>patch_text := new_patch_text, git_result := gr,
                        loop_iteration := Some i,
                        plan := pl @
                          [log i ''ITERATION_NO_PROGRESS'' ''meta''
                             ''Iteration made no textual changes; stopping loop''
                             [(''iteration'', JInt (int i))]]\<rparr>)
                   else if gr = Some ''ok'' then
                     Inr (st\<lparr>patch_text := new_patch_text, git_result := gr,
                        loop_iteration := Some i,
                        plan := pl @
                          [log i ''ITERATION_GIT_OK'' ''meta''
                             ''git apply --check succeeded; stopping loop''
                             [(''iteration'', JInt (int i))]]\<rparr>)
                   else
                     iter_loop git validate_with_git rest
                       (st\<lparr>patch_text := new_patch_text, git_result := gr,
                           last_patch_text := Some new_patch_text,
                           loop_iteration := Some i,
                           plan := pl @
                             [log i ''ITERATION_END'' ''meta'' ''Completed repair iteration''
                                [(''iteration'', JInt (int i)),
                                 (''git_validation'', jopt gr)]]\<rparr>))))"

record iterative_summary =
  saved_text :: string
  iterations_run :: nat
  iter_git_validation :: "string option"
  iter_steps :: "event list"

text \<open>After the loop the output is saved and the summary reads \<open>iteration + 1\<close>. When the
  loop body never ran, \<open>iteration\<close> is unbound and that read raises.\<close>

definition run_iterative ::
  "string \<Rightarrow> (nat \<Rightarrow> string \<Rightarrow> bool \<times> string) \<Rightarrow> bool \<Rightarrow> int \<Rightarrow> py_error + iterative_summary" where
  "run_iterative original git validate_with_git max_iterations =
     (case iter_loop git validate_with_git [0..<nat max_iterations]
                 \<lparr>patch_text = original, git_result = None, last_patch_text = None,
                  loop_iteration = None, plan = []\<rparr> of
        Inl e \<Rightarrow> Inl e
      | Inr st \<Rightarrow>
          (case loop_iteration st of
             None \<Rightarrow> Inl UnboundLocalError
           | Some i \<Rightarrow>
               Inr \<lparr>saved_text = patch_text st,
                    iterations_run = i + 1,
                    iter_git_validation = git_result st,
                    iter_steps = plan st @
                      [log i ''PLAN_SUMMARY'' ''meta'' ''Iterative repair completed''
                         [(''iterations_run'', JInt (int (i + 1))),
                          (''git_validation'', jopt (git_result st))]]\<rparr>))"

section \<open>The line kinds of the specification\<close>

datatype line_kind = Context | Removed | Added | NoNewlineMarker | Unexpected

definition spec_line_kind :: "string \<Rightarrow> line_kind" where
  \<comment> \<open>the classification in the specification's words: \<open>Context\<close> (prefix space),
     \<open>Removed\<close> (prefix \<open>-\<close>), \<open>Added\<close> (prefix \<open>+\<close>, not a blank addition), the
     no-newline marker, and \<open>Unexpected\<close> for anything else\<close>
  "spec_line_kind line =
     (if prefix '' '' line then Context
      else if prefix ''-'' line then Removed
      else if prefix ''+'' line \<and> strip line \<noteq> ''+'' then Added
      else if prefix (BACKSLASH # '' No newline at end of file'') line then NoNewlineMarker
      else Unexpected)"

definition kind_count :: "line_kind \<Rightarrow> string list \<Rightarrow> nat" where
  "kind_count k ls = length (filter (\<lambda>line. spec_line_kind line = k) ls)"

section \<open>Reading a result\<close>

definition returned :: "py_error + ('a \<times> event list) \<Rightarrow> 'a option" where
  \<comment> \<open>what a call returned, when it did not raise\<close>
  "returned r = (case r of Inl e \<Rightarrow> None | Inr (x, es) \<Rightarrow> Some x)"

definition logged :: "py_error + ('a \<times> event list) \<Rightarrow> string list" where
  \<comment> \<open>the codes of the entries that a call logged before it returned\<close>
  "logged r = (case r of Inl e \<Rightarrow> [] | Inr (x, es) \<Rightarrow> map code es)"

definition result_of :: "py_error + ('a \<times> event list) \<Rightarrow> py_error + 'a" where
  \<comment> \<open>the outcome of a call without its log\<close>
  "result_of r = (case r of Inl e \<Rightarrow> Inl e | Inr (x, es) \<Rightarrow> Inr x)"

section \<open>Reading a header\<close>

definition header_spans :: "string \<Rightarrow> (nat \<times> nat) option" where
  \<comment> \<open>the pair \<open>(old_span, new_span)\<close> that \<open>validate_hunk\<close> reads from a header, when the
     pattern matches and both calls of \<open>int\<close> return\<close>
  "header_spans s =
     (case match_header s of
        None \<Rightarrow> None
      | Some (old, new, rest) \<Rightarrow>
          (case py_int old of
             Inl e \<Rightarrow> None
           | Inr old_span \<Rightarrow>
               (case py_int new of
                  Inl e \<Rightarrow> None
                | Inr new_span \<Rightarrow> Some (old_span, new_span))))"

definition spans_readable :: "string \<Rightarrow> bool" where
  \<comment> \<open>no call of \<open>int\<close> on the span groups of the header raises: the header does not
     match, or neither group has more digits than the limit\<close>
  "spans_readable s =
     (case match_header s of
        None \<Rightarrow> True
      | Some (old, new, rest) \<Rightarrow>
          length old \<le> int_max_str_digits \<and> length new \<le> int_max_str_digits)"

fun pattern_occurs :: "string \<Rightarrow> bool" where
  \<comment> \<open>whether the header pattern matches somewhere in the string\<close>
  "pattern_occurs [] = False"
| "pattern_occurs (c # cs) = (match_header (c # cs) \<noteq> None \<or> pattern_occurs cs)"

definition expected_spans :: "Hunk \<Rightarrow> nat \<times> nat" where
  \<comment> \<open>\<open>(expected_old, expected_new)\<close> as \<open>validate_hunk\<close> computes them\<close>
  "expected_spans hunk =
     (case count_body_lines hunk of
        (context, removed, added, has_unexpected) \<Rightarrow> (context + removed, context + added))"

definition formattable :: "nat \<times> nat \<Rightarrow> bool" where
  \<comment> \<open>the f-string of the repair does not raise on these counts\<close>
  "formattable e =
     (length (str_nat (fst e)) \<le> int_max_str_digits \<and>
      length (str_nat (snd e)) \<le> int_max_str_digits)"

definition mismatch_codes :: "nat \<times> nat \<Rightarrow> nat \<times> nat \<Rightarrow> string list" where
  \<comment> \<open>the codes of the entries that \<open>mismatch_events\<close> logs\<close>
  "mismatch_codes expected declared =
     (if fst expected \<noteq> fst declared then [''HUNK_INVALID_OLD_SPAN_MISMATCH''] else []) @
     (if snd expected \<noteq> snd declared then [''HUNK_INVALID_NEW_SPAN_MISMATCH''] else [])"

section \<open>The document kept by a pass\<close>

text \<open>Whether \<open>validate_hunk\<close> raises, its verdict and the hunk it leaves depend on neither
  the iteration nor the file header, which only reach the log. The functions below name
  them, and the hunks and files that \<open>filter_or_repair_files\<close> keeps when no hunk raises.\<close>

definition raises :: "bool \<Rightarrow> Hunk \<Rightarrow> bool" where
  "raises allow_repairs hunk = (returned (validate_hunk 0 hunk [] allow_repairs) = None)"

definition accepts :: "bool \<Rightarrow> Hunk \<Rightarrow> bool" where
  "accepts allow_repairs hunk =
     (case returned (validate_hunk 0 hunk [] allow_repairs) of
        None \<Rightarrow> False
      | Some (ok, hunk2) \<Rightarrow> ok)"

definition hunk_left :: "bool \<Rightarrow> Hunk \<Rightarrow> Hunk" where
  "hunk_left allow_repairs hunk =
     (case returned (validate_hunk 0 hunk [] allow_repairs) of
        None \<Rightarrow> hunk
      | Some (ok, hunk2) \<Rightarrow> hunk2)"

definition kept_hunks :: "bool \<Rightarrow> Hunk list \<Rightarrow> Hunk list" where
  "kept_hunks allow_repairs hs = map (hunk_left allow_repairs) (filter (accepts allow_repairs) hs)"

definition kept_files :: "bool \<Rightarrow> FileDiff list \<Rightarrow> FileDiff list" where
  "kept_files allow_repairs fs =
     map (\<lambda>f. f\<lparr>hunks := kept_hunks allow_repairs (hunks f)\<rparr>)
       (filter (\<lambda>f. kept_hunks allow_repairs (hunks f) \<noteq> []) fs)"

definition files_raise :: "bool \<Rightarrow> FileDiff list \<Rightarrow> bool" where
  "files_raise allow_repairs fs = (\<exists>f \<in> set fs. \<exists>h \<in> set (hunks f). raises allow_repairs h)"

definition clean_input :: "string \<Rightarrow> string list" where
  \<comment> \<open>the lines that the trimming loop of \<open>basic_clean\<close> runs over: the lines of the text,
     after the preamble is cut\<close>
  "clean_input text = fst (strip_preamble 0 (splitlines text))"

section \<open>Lines and documents that a pass leaves\<close>









section \<open>Digits and the header pattern\<close>

lemma digit_char_is_digit: "d < 10 \<Longrightarrow> is_digit (digit_char d)"
  unfolding is_digit_def digit_char_def
  by (auto simp: less_Suc_eq numeral_eq_Suc)

lemma digit_val_digit_char: "d < 10 \<Longrightarrow> digit_val (digit_char d) = d"
  unfolding digit_val_def digit_char_def
  by (auto simp: less_Suc_eq numeral_eq_Suc)

lemma str_nat_digits: "str_nat n \<noteq> [] \<and> (\<forall>c \<in> set (str_nat n). is_digit c)"
proof (induction n rule: str_nat.induct)
  case (1 n)
  show ?case
  proof (cases "n < 10")
    case True
    then show ?thesis by (simp add: str_nat.simps [of n] digit_char_is_digit)
  next
    case False
    with 1 show ?thesis by (simp add: str_nat.simps [of n] digit_char_is_digit)
  qed
qed

lemma int_of_digits_snoc: "int_of_digits (ds @ [c]) = 10 * int_of_digits ds + digit_val c"
  by (simp add: int_of_digits_def)

lemma int_of_digits_str_nat: "int_of_digits (str_nat n) = n"
proof (induction n rule: str_nat.induct)
  case (1 n)
  show ?case
  proof (cases "n < 10")
    case True
    then show ?thesis by (simp add: str_nat.simps [of n] int_of_digits_def digit_val_digit_char)
  next
    case False
    with 1 show ?thesis
      by (simp add: str_nat.simps [of n] int_of_digits_snoc digit_val_digit_char)
  qed
qed

lemma digits1_append:
  assumes "ds \<noteq> []" "\<forall>c \<in> set ds. is_digit c" "r = [] \<or> \<not> is_digit (hd r)"
  shows "digits1 (ds @ r) = Some (ds, r)"
proof -
  have "takeWhile is_digit (ds @ r) = ds" "dropWhile is_digit (ds @ r) = r"
    using assms by (cases r; simp add: takeWhile_append dropWhile_append)+
  with assms(1) show ?thesis by (simp add: digits1_def)
qed

lemma lit_append: "lit p (p @ r) = Some r"
  by (simp add: lit_def)

lemma not_digit_simps: "\<not> is_digit (CHR '','')" "\<not> is_digit (CHR '' '')" "is_digit (CHR ''0'')"
  by (simp_all add: is_digit_def)

lemma match_header_shape:
  assumes a: "a \<noteq> []" "\<forall>c \<in> set a. is_digit c"
    and b: "b \<noteq> []" "\<forall>c \<in> set b. is_digit c"
    and c: "c \<noteq> []" "\<forall>x \<in> set c. is_digit x"
    and d: "d \<noteq> []" "\<forall>c \<in> set d. is_digit c"
  shows "match_header (''@@ -'' @ a @ '','' @ b @ '' +'' @ c @ '','' @ d @ '' @@'' @ r)
           = Some (b, d, r)"
proof -
  have da: "digits1 (a @ '','' @ x) = Some (a, '','' @ x)" for x
    using digits1_append [OF a disjI2] by (simp add: not_digit_simps)
  have db: "digits1 (b @ '' +'' @ x) = Some (b, '' +'' @ x)" for x
    using digits1_append [OF b disjI2] by (simp add: not_digit_simps)
  have dc: "digits1 (c @ '','' @ x) = Some (c, '','' @ x)" for x
    using digits1_append [OF c disjI2] by (simp add: not_digit_simps)
  have dd: "digits1 (d @ '' @@'' @ x) = Some (d, '' @@'' @ x)" for x
    using digits1_append [OF d disjI2] by (simp add: not_digit_simps)
  show ?thesis
    unfolding match_header_def
    by (simp only: lit_append da db dc dd Option.bind.simps prod.case)
qed

lemma match_span_text:
  "match_header (span_text eo en @ r) = Some (str_nat eo, str_nat en, r)"
proof -
  have z: "''0'' \<noteq> []" "\<forall>c \<in> set ''0''. is_digit c"
    by (simp_all add: not_digit_simps)
  have "span_text eo en @ r =
      ''@@ -'' @ ''0'' @ '','' @ str_nat eo @ '' +'' @ ''0'' @ '','' @ str_nat en @ '' @@'' @ r"
    by (simp add: span_text_def)
  then show ?thesis
    using match_header_shape [OF z _ _ z, of "str_nat eo" "str_nat en" r] str_nat_digits
    by simp
qed

section \<open>What the validator returns\<close>

lemma count_step_kind:
  "count_step (c, r, a, u) l =
     (case spec_line_kind l of
        Context \<Rightarrow> (Suc c, r, a, u)
      | Removed \<Rightarrow> (c, Suc r, a, u)
      | Added \<Rightarrow> (c, r, Suc a, u)
      | NoNewlineMarker \<Rightarrow> (c, r, a, u)
      | Unexpected \<Rightarrow> (c, r, a, True))"
  by (simp add: count_step_def spec_line_kind_def)

lemma foldl_count_step:
  "foldl count_step (c, r, a, u) ls =
     (c + kind_count Context ls, r + kind_count Removed ls, a + kind_count Added ls,
      u \<or> kind_count Unexpected ls \<noteq> 0)"
proof (induction ls arbitrary: c r a u)
  case Nil
  show ?case by (simp add: kind_count_def)
next
  case (Cons l ls)
  show ?case
    by (cases "spec_line_kind l") (simp_all add: Cons.IH count_step_kind kind_count_def)
qed

lemma count_body_lines_kinds:
  "count_body_lines h =
     (kind_count Context (body h), kind_count Removed (body h), kind_count Added (body h),
      kind_count Unexpected (body h) \<noteq> 0)"
  by (simp add: count_body_lines_def foldl_count_step)

lemma expected_spans_kinds:
  "expected_spans h =
     (kind_count Context (body h) + kind_count Removed (body h),
      kind_count Context (body h) + kind_count Added (body h))"
  by (simp add: expected_spans_def count_body_lines_kinds)

lemma match_header_Nil: "match_header [] = None"
  by (simp add: match_header_def lit_def)

lemma re_sub_header_match:
  "match_header s = Some (old, new, rest) \<Longrightarrow>
     re_sub_header repl s = repl @ re_sub_header repl rest"
  by (cases s) (simp_all add: match_header_Nil)

lemma re_sub_header_no_occurrence: "\<not> pattern_occurs s \<Longrightarrow> re_sub_header repl s = s"
  by (induction s) (auto split: option.splits)

lemma span_header_formattable:
  "span_header eo en = (if formattable (eo, en) then Inr (span_text eo en) else Inl ValueError)"
  by (simp add: span_header_def py_str_def formattable_def span_text_def)

lemma validate_hunk_malformed:
  assumes "match_header (header h) = None"
  shows "result_of (validate_hunk it h fh ar) = Inr (False, h)"
    and "logged (validate_hunk it h fh ar) = [''HUNK_INVALID_MALFORMED_HEADER'']"
  using assms by (simp_all add: validate_hunk_def result_of_def logged_def log_def)

lemma validate_hunk_unreadable:
  assumes "match_header (header h) = Some (old, new, rest)"
    and "\<not> (length old \<le> int_max_str_digits \<and> length new \<le> int_max_str_digits)"
  shows "validate_hunk it h fh ar = Inl ValueError"
  using assms by (auto simp: validate_hunk_def py_int_def)

lemma validate_hunk_readable:
  assumes m: "match_header (header h) = Some (old, new, rest)"
    and r: "length old \<le> int_max_str_digits" "length new \<le> int_max_str_digits"
  shows "result_of (validate_hunk it h fh ar) =
      (if expected_spans h = (int_of_digits old, int_of_digits new)
         then Inr (kind_count Unexpected (body h) = 0, h)
       else if \<not> ar then Inr (False, h)
       else if formattable (expected_spans h)
         then Inr (True,
                h\<lparr>header := span_text (fst (expected_spans h)) (snd (expected_spans h)) @
                  re_sub_header (span_text (fst (expected_spans h)) (snd (expected_spans h))) rest\<rparr>)
       else Inl ValueError)"
    and "logged (validate_hunk it h fh ar) =
      (if ar \<and> expected_spans h \<noteq> (int_of_digits old, int_of_digits new) \<and>
          \<not> formattable (expected_spans h) then []
       else
         (if kind_count Unexpected (body h) \<noteq> 0 then [''HUNK_INVALID_UNEXPECTED_LINE''] else []) @
         (if kind_count Unexpected (body h) \<noteq> 0 \<and> \<not> ar then []
          else if expected_spans h = (int_of_digits old, int_of_digits new) \<and>
                  kind_count Unexpected (body h) = 0
            then [''HUNK_VALID'']
          else if ar \<and> expected_spans h \<noteq> (int_of_digits old, int_of_digits new)
            then [''HUNK_HEADER_SPAN_REPAIRED'', ''HUNK_VALID_AFTER_REPAIR'']
          else mismatch_codes (expected_spans h) (int_of_digits old, int_of_digits new)))"
proof -
  obtain c d a u where cnt: "count_body_lines h = (c, d, a, u)" by (cases "count_body_lines h")
  from cnt have u: "u = (kind_count Unexpected (body h) \<noteq> 0)"
    and e: "expected_spans h = (c + d, c + a)"
    by (simp_all add: count_body_lines_kinds expected_spans_def)
  have i: "py_int old = Inr (int_of_digits old)" "py_int new = Inr (int_of_digits new)"
    using r by (simp_all add: py_int_def)
  have s: "span_header (c + d) (c + a) =
      (if formattable (c + d, c + a) then Inr (span_text (c + d) (c + a)) else Inl ValueError)"
    by (rule span_header_formattable)
  have rs: "re_sub_header repl (header h) = repl @ re_sub_header repl rest" for repl
    using m by (rule re_sub_header_match)
  show "result_of (validate_hunk it h fh ar) =
      (if expected_spans h = (int_of_digits old, int_of_digits new)
         then Inr (kind_count Unexpected (body h) = 0, h)
       else if \<not> ar then Inr (False, h)
       else if formattable (expected_spans h)
         then Inr (True,
                h\<lparr>header := span_text (fst (expected_spans h)) (snd (expected_spans h)) @
                  re_sub_header (span_text (fst (expected_spans h)) (snd (expected_spans h))) rest\<rparr>)
       else Inl ValueError)"
    unfolding validate_hunk_def maybe_fix_span_header_def Let_def m option.case prod.case i
      sum.case cnt e s rs
    by (simp del: re_sub_header.simps add: result_of_def u)
  show "logged (validate_hunk it h fh ar) =
      (if ar \<and> expected_spans h \<noteq> (int_of_digits old, int_of_digits new) \<and>
          \<not> formattable (expected_spans h) then []
       else
         (if kind_count Unexpected (body h) \<noteq> 0 then [''HUNK_INVALID_UNEXPECTED_LINE''] else []) @
         (if kind_count Unexpected (body h) \<noteq> 0 \<and> \<not> ar then []
          else if expected_spans h = (int_of_digits old, int_of_digits new) \<and>
                  kind_count Unexpected (body h) = 0
            then [''HUNK_VALID'']
          else if ar \<and> expected_spans h \<noteq> (int_of_digits old, int_of_digits new)
            then [''HUNK_HEADER_SPAN_REPAIRED'', ''HUNK_VALID_AFTER_REPAIR'']
          else mismatch_codes (expected_spans h) (int_of_digits old, int_of_digits new)))"
    unfolding validate_hunk_def maybe_fix_span_header_def Let_def m option.case prod.case i
      sum.case cnt e s rs mismatch_events_def mismatch_codes_def
    by (simp del: re_sub_header.simps add: logged_def log_def u)
qed

lemma returned_result_of: "returned r = (case result_of r of Inl e \<Rightarrow> None | Inr x \<Rightarrow> Some x)"
  by (simp add: returned_def result_of_def split: sum.splits)

lemma header_spans_readable:
  "header_spans s =
     (case match_header s of
        None \<Rightarrow> None
      | Some (old, new, rest) \<Rightarrow>
          if length old \<le> int_max_str_digits \<and> length new \<le> int_max_str_digits
          then Some (int_of_digits old, int_of_digits new) else None)"
  by (simp add: header_spans_def py_int_def split: option.splits)

lemma header_spans_span_text:
  "formattable (eo, en) \<Longrightarrow> header_spans (span_text eo en @ r) = Some (eo, en)"
  by (simp add: header_spans_readable match_span_text int_of_digits_str_nat formattable_def)

lemma validate_hunk_returned:
  "returned (validate_hunk it h fh ar) =
     (case match_header (header h) of
        None \<Rightarrow> Some (False, h)
      | Some (old, new, rest) \<Rightarrow>
          (case header_spans (header h) of
             None \<Rightarrow> None
           | Some declared \<Rightarrow>
               if expected_spans h = declared then Some (kind_count Unexpected (body h) = 0, h)
               else if \<not> ar then Some (False, h)
               else if formattable (expected_spans h)
                 then Some (True,
                        h\<lparr>header := span_text (fst (expected_spans h)) (snd (expected_spans h)) @
                          re_sub_header (span_text (fst (expected_spans h)) (snd (expected_spans h)))
                            rest\<rparr>)
               else None))"
proof (cases "match_header (header h)")
  case None
  then show ?thesis
    by (simp add: returned_result_of validate_hunk_malformed)
next
  case (Some m)
  obtain old new rest where m: "match_header (header h) = Some (old, new, rest)"
    using Some by (cases m) simp
  show ?thesis
  proof (cases "length old \<le> int_max_str_digits \<and> length new \<le> int_max_str_digits")
    case True
    then show ?thesis
      using validate_hunk_readable(1) [OF m, of it fh ar]
      by (simp add: returned_result_of m header_spans_readable)
  next
    case False
    then show ?thesis
      using validate_hunk_unreadable [OF m False, of it fh ar]
      by (simp add: returned_def m header_spans_readable)
  qed
qed

lemma validate_hunk_logged:
  "logged (validate_hunk it h fh ar) =
     (case match_header (header h) of
        None \<Rightarrow> [''HUNK_INVALID_MALFORMED_HEADER'']
      | Some (old, new, rest) \<Rightarrow>
          (case header_spans (header h) of
             None \<Rightarrow> []
           | Some declared \<Rightarrow>
               if ar \<and> expected_spans h \<noteq> declared \<and> \<not> formattable (expected_spans h) then []
               else
                 (if kind_count Unexpected (body h) \<noteq> 0 then [''HUNK_INVALID_UNEXPECTED_LINE'']
                  else []) @
                 (if kind_count Unexpected (body h) \<noteq> 0 \<and> \<not> ar then []
                  else if expected_spans h = declared \<and> kind_count Unexpected (body h) = 0
                    then [''HUNK_VALID'']
                  else if ar \<and> expected_spans h \<noteq> declared
                    then [''HUNK_HEADER_SPAN_REPAIRED'', ''HUNK_VALID_AFTER_REPAIR'']
                  else mismatch_codes (expected_spans h) declared)))"
proof (cases "match_header (header h)")
  case None
  then show ?thesis
    by (simp add: validate_hunk_malformed)
next
  case (Some m)
  obtain old new rest where m: "match_header (header h) = Some (old, new, rest)"
    using Some by (cases m) simp
  show ?thesis
  proof (cases "length old \<le> int_max_str_digits \<and> length new \<le> int_max_str_digits")
    case True
    then show ?thesis
      using validate_hunk_readable(2) [OF m, of it fh ar]
      by (simp add: m header_spans_readable)
  next
    case False
    then show ?thesis
      using validate_hunk_unreadable [OF m False, of it fh ar]
      by (auto simp: logged_def m header_spans_readable)
  qed
qed

lemma validate_hunk_any_log:
  "returned (validate_hunk it h fh ar) = returned (validate_hunk 0 h [] ar)"
  by (simp only: validate_hunk_returned)




section \<open>What the filter keeps\<close>

lemma validate_hunk_error:
  assumes "validate_hunk it h fh ar = Inl e"
  shows "e = ValueError"
proof (cases "match_header (header h)")
  case None
  then show ?thesis
    using assms validate_hunk_malformed [of h it fh ar] by (simp add: result_of_def)
next
  case (Some m)
  obtain old new rest where m: "match_header (header h) = Some (old, new, rest)"
    using Some by (cases m) simp
  show ?thesis
  proof (cases "length old \<le> int_max_str_digits \<and> length new \<le> int_max_str_digits")
    case True
    then show ?thesis
      using validate_hunk_readable(1) [OF m, of it fh ar] assms
      by (simp add: result_of_def split: if_splits)
  next
    case False
    then show ?thesis
      using validate_hunk_unreadable [OF m False, of it fh ar] assms by simp
  qed
qed

lemma validate_hunk_cases:
  "(validate_hunk it h fh ar = Inl ValueError \<and> raises ar h) \<or>
   ((\<exists>es. validate_hunk it h fh ar = Inr ((accepts ar h, hunk_left ar h), es)) \<and> \<not> raises ar h)"
proof (cases "validate_hunk it h fh ar")
  case (Inl e)
  then have "returned (validate_hunk 0 h [] ar) = None"
    using validate_hunk_any_log [of it h fh ar] by (simp add: returned_def)
  then show ?thesis
    using Inl validate_hunk_error [OF Inl] by (simp add: raises_def)
next
  case (Inr r)
  obtain ok h2 es where r: "r = ((ok, h2), es)"
    by (cases r) auto
  have "returned (validate_hunk 0 h [] ar) = Some (ok, h2)"
    using validate_hunk_any_log [of it h fh ar] Inr r by (simp add: returned_def)
  then show ?thesis
    using Inr r by (simp add: raises_def accepts_def hunk_left_def)
qed

lemma validate_hunks_result:
  "result_of (validate_hunks it fh ar hs) =
     (if \<exists>h \<in> set hs. raises ar h then Inl ValueError else Inr (kept_hunks ar hs))"
proof (induction hs)
  case Nil
  show ?case
    by (simp add: result_of_def kept_hunks_def)
next
  case (Cons h hs)
  consider (raise) "validate_hunk it h fh ar = Inl ValueError" "raises ar h"
    | (return) es where "validate_hunk it h fh ar = Inr ((accepts ar h, hunk_left ar h), es)"
        "\<not> raises ar h"
    using validate_hunk_cases [of it h fh ar] by blast
  then show ?case
  proof cases
    case raise
    then show ?thesis
      by (simp add: result_of_def)
  next
    case return
    show ?thesis
    proof (cases "validate_hunks it fh ar hs")
      case (Inl e)
      then show ?thesis
        using Cons.IH return by (auto simp: result_of_def split: if_splits)
    next
      case (Inr r)
      obtain vs es2 where r: "r = (vs, es2)"
        by (cases r) auto
      show ?thesis
        using Cons.IH return Inr r
        by (simp add: result_of_def kept_hunks_def split: if_splits)
    qed
  qed
qed

lemma filter_loop_result:
  "result_of (filter_loop it ar fs) =
     (if files_raise ar fs then Inl ValueError else Inr (kept_files ar fs))"
proof (induction fs)
  case Nil
  show ?case
    by (simp add: result_of_def kept_files_def files_raise_def)
next
  case (Cons f fs)
  show ?case
  proof (cases "validate_hunks it (fd_header f) ar (hunks f)")
    case (Inl e)
    then show ?thesis
      using validate_hunks_result [of it "fd_header f" ar "hunks f"]
      by (auto simp: result_of_def files_raise_def split: if_splits)
  next
    case (Inr r)
    obtain vs es where r: "r = (vs, es)"
      by (cases r) auto
    have v: "\<not> (\<exists>h \<in> set (hunks f). raises ar h)" "vs = kept_hunks ar (hunks f)"
      using validate_hunks_result [of it "fd_header f" ar "hunks f"] Inr r
      by (simp_all add: result_of_def split: if_splits)
    have fr: "files_raise ar (f # fs) = files_raise ar fs"
      using v(1) by (simp add: files_raise_def)
    show ?thesis
    proof (cases "filter_loop it ar fs")
      case (Inl e)
      then show ?thesis
        using Cons.IH Inr r unfolding fr by (simp add: result_of_def split: if_splits)
    next
      case (Inr r2)
      obtain res es2 where r2: "r2 = (res, es2)"
        by (cases r2) auto
      show ?thesis
        using Cons.IH Inr r2 \<open>validate_hunks it (fd_header f) ar (hunks f) = Inr r\<close> r v(2)
        unfolding fr by (simp add: result_of_def kept_files_def split: if_splits)
    qed
  qed
qed

lemma filter_or_repair_files_result:
  "result_of (filter_or_repair_files it fs ar) =
     (if files_raise ar fs then Inl ValueError else Inr (kept_files ar fs))"
  using filter_loop_result [of it ar fs]
  by (auto simp: filter_or_repair_files_def result_of_def split: sum.splits prod.splits if_splits)

lemma kept_files_append: "kept_files ar (xs @ ys) = kept_files ar xs @ kept_files ar ys"
  by (simp add: kept_files_def)

lemma files_raise_append: "files_raise ar (xs @ ys) \<longleftrightarrow> files_raise ar xs \<or> files_raise ar ys"
  by (auto simp: files_raise_def)

section \<open>Counts that the repair can format\<close>

lemma str_nat_length: "length (str_nat n) \<le> Suc n"
proof (induction n rule: str_nat.induct)
  case (1 n)
  show ?case
  proof (cases "n < 10")
    case True
    then show ?thesis by (simp add: str_nat.simps [of n])
  next
    case False
    then have "length (str_nat (n div 10)) \<le> Suc (n div 10)"
      using 1 by simp
    moreover have "Suc (n div 10) \<le> n"
      using False by simp
    ultimately show ?thesis
      using False by (simp add: str_nat.simps [of n])
  qed
qed

lemma formattable_small:
  "eo < int_max_str_digits \<Longrightarrow> en < int_max_str_digits \<Longrightarrow> formattable (eo, en)"
  using str_nat_length [of eo] str_nat_length [of en] by (simp add: formattable_def)

lemmas eval_defs =
  match_header_def lit_def digits1_def is_digit_def header_spans_def py_int_def
  int_max_str_digits_def int_of_digits_def digit_val_def spans_readable_def
  kind_count_def spec_line_kind_def strip_def rstrip_def is_space_def BACKSLASH_def LF_def
  expected_spans_def count_body_lines_def count_step_def

section \<open>The claims about the validator\<close>



lemma repair_within_limit:
  assumes "header_spans (header hunk) = Some declared"
    and "expected_spans hunk \<noteq> declared"
    and "formattable (expected_spans hunk)"
  shows "\<exists>hunk2. result_of (validate_hunk it hunk file_header True) = Inr (True, hunk2) \<and>
           header_spans (header hunk2) = Some (expected_spans hunk) \<and>
           body hunk2 = body hunk"
    and "logged (validate_hunk it hunk file_header True) =
           (if kind_count Unexpected (body hunk) \<noteq> 0 then [''HUNK_INVALID_UNEXPECTED_LINE'']
            else []) @
           [''HUNK_HEADER_SPAN_REPAIRED'', ''HUNK_VALID_AFTER_REPAIR'']"
proof -
  from assms(1) obtain old new rest where m: "match_header (header hunk) = Some (old, new, rest)"
    and r: "length old \<le> int_max_str_digits" "length new \<le> int_max_str_digits"
    and d: "declared = (int_of_digits old, int_of_digits new)"
    by (auto simp: header_spans_readable split: option.splits if_splits)
  have f: "formattable (fst (expected_spans hunk), snd (expected_spans hunk))"
    using assms(3) by simp
  show "\<exists>hunk2. result_of (validate_hunk it hunk file_header True) = Inr (True, hunk2) \<and>
           header_spans (header hunk2) = Some (expected_spans hunk) \<and>
           body hunk2 = body hunk"
    using validate_hunk_readable(1) [OF m r, of it file_header True] assms(2,3) d
      header_spans_span_text [OF f]
    by simp
  show "logged (validate_hunk it hunk file_header True) =
           (if kind_count Unexpected (body hunk) \<noteq> 0 then [''HUNK_INVALID_UNEXPECTED_LINE'']
            else []) @
           [''HUNK_HEADER_SPAN_REPAIRED'', ''HUNK_VALID_AFTER_REPAIR'']"
    using validate_hunk_readable(2) [OF m r, of it file_header True] assms(2,3) d
    by simp
qed

lemma settled_within_limit:
  assumes "header_spans (header hunk) = Some (expected_spans hunk)"
  shows "result_of (validate_hunk it hunk file_header allow_repairs) =
           Inr (kind_count Unexpected (body hunk) = 0, hunk)"
    and "logged (validate_hunk it hunk file_header allow_repairs) =
           (if kind_count Unexpected (body hunk) = 0 then [''HUNK_VALID'']
            else [''HUNK_INVALID_UNEXPECTED_LINE''])"
proof -
  from assms obtain old new rest where m: "match_header (header hunk) = Some (old, new, rest)"
    and r: "length old \<le> int_max_str_digits" "length new \<le> int_max_str_digits"
    and d: "expected_spans hunk = (int_of_digits old, int_of_digits new)"
    by (auto simp: header_spans_readable split: option.splits if_splits)
  show "result_of (validate_hunk it hunk file_header allow_repairs) =
           Inr (kind_count Unexpected (body hunk) = 0, hunk)"
    using validate_hunk_readable(1) [OF m r, of it file_header allow_repairs] d by simp
  show "logged (validate_hunk it hunk file_header allow_repairs) =
           (if kind_count Unexpected (body hunk) = 0 then [''HUNK_VALID'']
            else [''HUNK_INVALID_UNEXPECTED_LINE''])"
    using validate_hunk_readable(2) [OF m r, of it file_header allow_repairs] d
    by (simp add: mismatch_codes_def)
qed

text \<open>
  C2 fails on a header that matches the pattern with a span of more than 4300 digits.
  Here the header is \<open>@@ -1,\<close>, then 4301 times the digit 1, then \<open> +1,1 @@\<close>, over the one
  context line \<open> old\<close>: the pattern matches, the body holds no Unexpected line, the
  counted spans are 1 and 1, and with repairs allowed \<open>validate_hunk\<close> raises
  \<open>ValueError\<close> at \<open>int(match.group("old"))\<close> instead of repairing the header.
\<close>

theorem C2_long_span_aborts:
  "match_header (''@@ -1,'' @ replicate 4301 (CHR ''1'') @ '' +1,1 @@\<newline>'') =
     Some (replicate 4301 (CHR ''1''), ''1'', ''\<newline>'') \<and>
   kind_count Unexpected ['' old\<newline>''] = 0 \<and>
   expected_spans
     \<lparr>header = ''@@ -1,'' @ replicate 4301 (CHR ''1'') @ '' +1,1 @@\<newline>'', body = ['' old\<newline>'']\<rparr> =
     (1, 1) \<and>
   validate_hunk 0
     \<lparr>header = ''@@ -1,'' @ replicate 4301 (CHR ''1'') @ '' +1,1 @@\<newline>'', body = ['' old\<newline>'']\<rparr>
     ''diff --git a b\<newline>'' True = Inl ValueError"
proof -
  have one: "''1'' \<noteq> []" "\<forall>c \<in> set ''1''. is_digit c"
    by (simp_all add: is_digit_def)
  have long: "replicate 4301 (CHR ''1'') \<noteq> []" "\<forall>c \<in> set (replicate 4301 (CHR ''1'')). is_digit c"
    by (simp_all add: is_digit_def)
  have m: "match_header (''@@ -1,'' @ replicate 4301 (CHR ''1'') @ '' +1,1 @@\<newline>'') =
      Some (replicate 4301 (CHR ''1''), ''1'', ''\<newline>'')"
  proof -
    have "''@@ -1,'' @ replicate 4301 (CHR ''1'') @ '' +1,1 @@\<newline>'' =
        ''@@ -'' @ ''1'' @ '','' @ replicate 4301 (CHR ''1'') @ '' +'' @ ''1'' @ '','' @ ''1'' @
        '' @@'' @ ''\<newline>''"
      by simp
    then show ?thesis
      by (simp only: match_header_shape [OF one long one one])
  qed
  have k: "kind_count Unexpected ['' old\<newline>''] = 0"
    by (simp add: kind_count_def spec_line_kind_def)
  have e: "expected_spans
     \<lparr>header = ''@@ -1,'' @ replicate 4301 (CHR ''1'') @ '' +1,1 @@\<newline>'', body = ['' old\<newline>'']\<rparr> =
     (1, 1)"
    by (simp add: expected_spans_kinds kind_count_def spec_line_kind_def)
  have v: "validate_hunk 0
     \<lparr>header = ''@@ -1,'' @ replicate 4301 (CHR ''1'') @ '' +1,1 @@\<newline>'', body = ['' old\<newline>'']\<rparr>
     ''diff --git a b\<newline>'' True = Inl ValueError"
  proof -
    have hm: "match_header (header
       \<lparr>header = ''@@ -1,'' @ replicate 4301 (CHR ''1'') @ '' +1,1 @@\<newline>'', body = ['' old\<newline>'']\<rparr>) =
       Some (replicate 4301 (CHR ''1''), ''1'', ''\<newline>'')"
      using m by simp
    show ?thesis
      by (rule validate_hunk_unreadable [OF hm]) (simp add: int_max_str_digits_def)
  qed
  show ?thesis
    using m k e v by simp
qed

text \<open>
  C4, as stated, fails: the repair does not leave the start offsets as they were. It
  replaces the whole match by \<open>@@ -0,<expected_old> +0,<expected_new> @@\<close>, so both start
  offsets become 0. Here \<open>@@ -1,2 +1,3 @@ f()\<close> becomes \<open>@@ -0,1 +0,3 @@ f()\<close> and not
  \<open>@@ -1,1 +1,3 @@ f()\<close>.
\<close>

theorem C4_start_offsets_counterexample:
  "result_of (validate_hunk 0
     \<lparr>header = ''@@ -1,2 +1,3 @@ f()\<newline>'', body = ['' old\<newline>'', ''+new1\<newline>'', ''+new2\<newline>'']\<rparr>
     ''diff --git a b\<newline>'' True) =
     Inr (True,
       \<lparr>header = ''@@ -0,1 +0,3 @@ f()\<newline>'', body = ['' old\<newline>'', ''+new1\<newline>'', ''+new2\<newline>'']\<rparr>) \<and>
   ''@@ -0,1 +0,3 @@ f()\<newline>'' \<noteq> ''@@ -1,1 +1,3 @@ f()\<newline>''"
proof -
  have m: "match_header (header
      \<lparr>header = ''@@ -1,2 +1,3 @@ f()\<newline>'', body = ['' old\<newline>'', ''+new1\<newline>'', ''+new2\<newline>'']\<rparr>) =
      Some (''2'', ''3'', '' f()\<newline>'')"
    by (simp add: eval_defs)
  show ?thesis
    using validate_hunk_readable(1) [OF m, of 0 "''diff --git a b\<newline>''" True]
    by (simp add: eval_defs formattable_def span_text_def str_nat.simps digit_char_def)
qed

text \<open>
  C4, amended. When the validator repairs a span mismatch, the header it leaves is
  \<open>@@ -0,<expected_old> +0,<expected_new> @@\<close> followed by the text that came after the
  match, in which every further occurrence of the pattern is replaced the same way: the
  spans are the counted values, both start offsets are 0, and trailing header text that
  holds no occurrence of the pattern is unchanged. The body is unchanged.
\<close>

theorem C4_repair_rewrites_pattern:
  assumes "match_header (header hunk) = Some (old, new, rest)"
    and "expected_spans hunk = (expected_old, expected_new)"
    and "(expected_old, expected_new) \<noteq> (int_of_digits old, int_of_digits new)"
    and "returned (validate_hunk it hunk file_header True) = Some (ok, hunk2)"
  shows "ok \<and>
         header hunk2 =
           ''@@ -0,'' @ str_nat expected_old @ '' +0,'' @ str_nat expected_new @ '' @@'' @
           re_sub_header (span_text expected_old expected_new) rest \<and>
         (\<not> pattern_occurs rest \<longrightarrow>
            header hunk2 =
              ''@@ -0,'' @ str_nat expected_old @ '' +0,'' @ str_nat expected_new @ '' @@'' @ rest) \<and>
         body hunk2 = body hunk"
  using assms
  by (auto simp: validate_hunk_returned header_spans_readable re_sub_header_no_occurrence
        span_text_def split: if_splits)

theorem C4_repair_rewrites_pattern_witness:
  "returned (validate_hunk 0
     \<lparr>header = ''@@ -1,2 +1,3 @@ f()\<newline>'', body = ['' old\<newline>'', ''+new1\<newline>'', ''+new2\<newline>'']\<rparr>
     ''diff --git a b\<newline>'' True) =
     Some (True,
       \<lparr>header = ''@@ -0,1 +0,3 @@ f()\<newline>'', body = ['' old\<newline>'', ''+new1\<newline>'', ''+new2\<newline>'']\<rparr>) \<and>
   header \<lparr>header = ''@@ -0,1 +0,3 @@ f()\<newline>'', body = ['' old\<newline>'', ''+new1\<newline>'', ''+new2\<newline>'']\<rparr> =
     ''@@ -0,'' @ str_nat 1 @ '' +0,'' @ str_nat 3 @ '' @@'' @ '' f()\<newline>''"
proof -
  have m: "match_header (header \<lparr>header = ''@@ -1,2 +1,3 @@ f()\<newline>'',
       body = ['' old\<newline>'', ''+new1\<newline>'', ''+new2\<newline>'']\<rparr>) = Some (''2'', ''3'', '' f()\<newline>'')"
    by (simp add: eval_defs)
  have e: "expected_spans \<lparr>header = ''@@ -1,2 +1,3 @@ f()\<newline>'',
       body = ['' old\<newline>'', ''+new1\<newline>'', ''+new2\<newline>'']\<rparr> = (1, 3)"
    by (simp add: eval_defs)
  have n: "((1::nat), (3::nat)) \<noteq> (int_of_digits ''2'', int_of_digits ''3'')"
    by (simp add: eval_defs)
  have r: "returned (validate_hunk 0
     \<lparr>header = ''@@ -1,2 +1,3 @@ f()\<newline>'', body = ['' old\<newline>'', ''+new1\<newline>'', ''+new2\<newline>'']\<rparr>
     ''diff --git a b\<newline>'' True) =
     Some (True,
       \<lparr>header = ''@@ -0,1 +0,3 @@ f()\<newline>'', body = ['' old\<newline>'', ''+new1\<newline>'', ''+new2\<newline>'']\<rparr>)"
    using validate_hunk_readable(1) [OF m, of 0 "''diff --git a b\<newline>''" True]
    by (simp add: returned_result_of eval_defs formattable_def span_text_def str_nat.simps
          digit_char_def)
  have p: "\<not> pattern_occurs '' f()\<newline>''"
    by (simp add: eval_defs)
  show ?thesis
    using C4_repair_rewrites_pattern [OF m e n r, THEN conjunct2, THEN conjunct2, THEN conjunct1,
        rule_format, OF p] r
    by simp
qed

text \<open>
  C6. A hunk whose header does not match the pattern is rejected whatever
  \<open>allow_repairs\<close> is, is left as it was, and logs the malformed-header entry alone; a file
  whose only hunk it is does not appear in the document that \<open>filter_or_repair_files\<close>
  returns, which is the document of the files before it followed by that of the files
  after it, and the call raises exactly when it raises on the files before or on the files
  after.
\<close>

theorem C6_malformed_header_rejected:
  assumes "match_header (header hunk) = None"
  shows "result_of (validate_hunk it hunk file_header allow_repairs) = Inr (False, hunk) \<and>
         logged (validate_hunk it hunk file_header allow_repairs) =
           [''HUNK_INVALID_MALFORMED_HEADER''] \<and>
         (hunks file_diff = [hunk] \<longrightarrow>
            result_of (filter_or_repair_files it (before @ file_diff # after) allow_repairs) =
              (case result_of (filter_or_repair_files it before allow_repairs) of
                 Inl e \<Rightarrow> Inl e
               | Inr kept_before \<Rightarrow>
                   (case result_of (filter_or_repair_files it after allow_repairs) of
                      Inl e \<Rightarrow> Inl e
                    | Inr kept_after \<Rightarrow> Inr (kept_before @ kept_after))))"
proof -
  have 1: "result_of (validate_hunk it hunk file_header allow_repairs) = Inr (False, hunk)"
    and 2: "logged (validate_hunk it hunk file_header allow_repairs) =
           [''HUNK_INVALID_MALFORMED_HEADER'']"
    using validate_hunk_malformed [OF assms] by simp_all
  have a: "\<not> accepts allow_repairs hunk" and r: "\<not> raises allow_repairs hunk"
    using assms by (simp_all add: accepts_def raises_def validate_hunk_returned)
  have k: "kept_files allow_repairs [file_diff] = []"
    and f: "\<not> files_raise allow_repairs [file_diff]" if "hunks file_diff = [hunk]"
    using that a r by (simp_all add: kept_files_def kept_hunks_def files_raise_def)
  have 3: "result_of (filter_or_repair_files it (before @ file_diff # after) allow_repairs) =
              (case result_of (filter_or_repair_files it before allow_repairs) of
                 Inl e \<Rightarrow> Inl e
               | Inr kept_before \<Rightarrow>
                   (case result_of (filter_or_repair_files it after allow_repairs) of
                      Inl e \<Rightarrow> Inl e
                    | Inr kept_after \<Rightarrow> Inr (kept_before @ kept_after)))"
    if h: "hunks file_diff = [hunk]"
  proof -
    have "kept_files allow_repairs (before @ file_diff # after) =
        kept_files allow_repairs before @ kept_files allow_repairs after"
      using kept_files_append [of allow_repairs before "[file_diff] @ after"]
        kept_files_append [of allow_repairs "[file_diff]" after] k [OF h] by simp
    moreover have "files_raise allow_repairs (before @ file_diff # after) \<longleftrightarrow>
        files_raise allow_repairs before \<or> files_raise allow_repairs after"
      using files_raise_append [of allow_repairs before "[file_diff] @ after"]
        files_raise_append [of allow_repairs "[file_diff]" after] f [OF h] by simp
    ultimately show ?thesis
      by (simp add: filter_or_repair_files_result)
  qed
  show ?thesis
    using 1 2 3 by blast
qed

theorem C6_malformed_header_rejected_witness:
  "result_of (validate_hunk 0 \<lparr>header = ''@@ garbage @@\<newline>'', body = ['' old\<newline>'']\<rparr>
            ''diff --git a b\<newline>'' True) =
     Inr (False, \<lparr>header = ''@@ garbage @@\<newline>'', body = ['' old\<newline>'']\<rparr>) \<and>
   result_of (filter_or_repair_files 0
     ([] @ \<lparr>fd_header = ''diff --git a b\<newline>'', headers = [],
            hunks = [\<lparr>header = ''@@ garbage @@\<newline>'', body = ['' old\<newline>'']\<rparr>]\<rparr> # []) True) = Inr []"
proof -
  have m: "match_header (header \<lparr>header = ''@@ garbage @@\<newline>'', body = ['' old\<newline>'']\<rparr>) = None"
    by (simp add: eval_defs)
  have e: "result_of (filter_or_repair_files 0 [] True) = Inr []"
    by (simp add: filter_or_repair_files_def result_of_def)
  show ?thesis
    using C6_malformed_header_rejected [OF m, of 0 "''diff --git a b\<newline>''" True
      "\<lparr>fd_header = ''diff --git a b\<newline>'', headers = [],
            hunks = [\<lparr>header = ''@@ garbage @@\<newline>'', body = ['' old\<newline>'']\<rparr>]\<rparr>" "[]" "[]"] e
    by simp
qed

lemma unexpected_within_limit:
  assumes "header_spans (header hunk) = Some declared"
    and "kind_count Unexpected (body hunk) \<noteq> 0"
    and "formattable (expected_spans hunk)"
  shows "map_option fst (returned (validate_hunk it hunk file_header True)) =
           Some (expected_spans hunk \<noteq> declared)"
    and "map_option snd (returned (validate_hunk it hunk file_header True)) \<noteq> Some hunk \<longleftrightarrow>
           header_spans (header hunk) \<noteq> Some (expected_spans hunk)"
    and "''HUNK_HEADER_SPAN_REPAIRED'' \<in> set (logged (validate_hunk it hunk file_header True)) \<longleftrightarrow>
           expected_spans hunk \<noteq> declared"
    and "''HUNK_VALID'' \<notin> set (logged (validate_hunk it hunk file_header True))"
proof -
  show "map_option fst (returned (validate_hunk it hunk file_header True)) =
           Some (expected_spans hunk \<noteq> declared)"
    using assms
    by (auto simp: validate_hunk_returned header_spans_readable split: option.splits if_splits)
  show "''HUNK_HEADER_SPAN_REPAIRED'' \<in> set (logged (validate_hunk it hunk file_header True)) \<longleftrightarrow>
           expected_spans hunk \<noteq> declared"
    using assms
    by (auto simp: validate_hunk_logged header_spans_readable mismatch_codes_def
          split: option.splits if_splits)
  show "''HUNK_VALID'' \<notin> set (logged (validate_hunk it hunk file_header True))"
    using assms
    by (auto simp: validate_hunk_logged header_spans_readable mismatch_codes_def
          split: option.splits if_splits)
  show "map_option snd (returned (validate_hunk it hunk file_header True)) \<noteq> Some hunk \<longleftrightarrow>
           header_spans (header hunk) \<noteq> Some (expected_spans hunk)"
  proof (cases "expected_spans hunk = declared")
    case True
    then show ?thesis
      using assms settled_within_limit(1) [of hunk it file_header True]
      by (simp add: returned_result_of)
  next
    case False
    obtain hunk2 where h2: "result_of (validate_hunk it hunk file_header True) = Inr (True, hunk2)"
      "header_spans (header hunk2) = Some (expected_spans hunk)"
      using repair_within_limit(1) [OF assms(1) False assms(3), of it file_header] by blast
    then have "hunk2 \<noteq> hunk"
      using assms(1) False by auto
    then show ?thesis
      using h2 assms(1) False by (simp add: returned_result_of)
  qed
qed

text \<open>
  C7 fails on a header that matches the pattern with a span of more than 4300 digits.
  Here the header is \<open>@@ -1,1 +1,\<close>, then 4301 times the digit 1, then \<open> @@\<close>, over the
  context line \<open> old\<close> and the Unexpected line \<open>garbage\<close>: the pattern matches, the counted
  spans 1 and 1 differ from the declared ones, and with repairs allowed \<open>validate_hunk\<close>
  raises \<open>ValueError\<close> at \<open>int(match.group("new"))\<close> instead of repairing the header
  and keeping the hunk.
\<close>

theorem C7_long_span_aborts:
  "match_header (''@@ -1,1 +1,'' @ replicate 4301 (CHR ''1'') @ '' @@\<newline>'') =
     Some (''1'', replicate 4301 (CHR ''1''), ''\<newline>'') \<and>
   kind_count Unexpected ['' old\<newline>'', ''garbage\<newline>''] = 1 \<and>
   expected_spans
     \<lparr>header = ''@@ -1,1 +1,'' @ replicate 4301 (CHR ''1'') @ '' @@\<newline>'',
      body = ['' old\<newline>'', ''garbage\<newline>'']\<rparr> = (1, 1) \<and>
   validate_hunk 0
     \<lparr>header = ''@@ -1,1 +1,'' @ replicate 4301 (CHR ''1'') @ '' @@\<newline>'',
      body = ['' old\<newline>'', ''garbage\<newline>'']\<rparr>
     ''diff --git a b\<newline>'' True = Inl ValueError"
proof -
  have one: "''1'' \<noteq> []" "\<forall>c \<in> set ''1''. is_digit c"
    by (simp_all add: is_digit_def)
  have long: "replicate 4301 (CHR ''1'') \<noteq> []" "\<forall>c \<in> set (replicate 4301 (CHR ''1'')). is_digit c"
    by (simp_all add: is_digit_def)
  have m: "match_header (''@@ -1,1 +1,'' @ replicate 4301 (CHR ''1'') @ '' @@\<newline>'') =
      Some (''1'', replicate 4301 (CHR ''1''), ''\<newline>'')"
  proof -
    have "''@@ -1,1 +1,'' @ replicate 4301 (CHR ''1'') @ '' @@\<newline>'' =
        ''@@ -'' @ ''1'' @ '','' @ ''1'' @ '' +'' @ ''1'' @ '','' @ replicate 4301 (CHR ''1'') @
        '' @@'' @ ''\<newline>''"
      by simp
    then show ?thesis
      by (simp only: match_header_shape [OF one one one long])
  qed
  have k: "kind_count Unexpected ['' old\<newline>'', ''garbage\<newline>''] = 1"
    by (simp add: eval_defs)
  have e: "expected_spans
     \<lparr>header = ''@@ -1,1 +1,'' @ replicate 4301 (CHR ''1'') @ '' @@\<newline>'',
      body = ['' old\<newline>'', ''garbage\<newline>'']\<rparr> = (1, 1)"
    by (simp add: expected_spans_kinds kind_count_def spec_line_kind_def)
  have v: "validate_hunk 0
     \<lparr>header = ''@@ -1,1 +1,'' @ replicate 4301 (CHR ''1'') @ '' @@\<newline>'',
      body = ['' old\<newline>'', ''garbage\<newline>'']\<rparr>
     ''diff --git a b\<newline>'' True = Inl ValueError"
  proof -
    have hm: "match_header (header
       \<lparr>header = ''@@ -1,1 +1,'' @ replicate 4301 (CHR ''1'') @ '' @@\<newline>'',
        body = ['' old\<newline>'', ''garbage\<newline>'']\<rparr>) =
       Some (''1'', replicate 4301 (CHR ''1''), ''\<newline>'')"
      using m by simp
    show ?thesis
      by (rule validate_hunk_unreadable [OF hm]) (simp add: int_max_str_digits_def)
  qed
  show ?thesis
    using m k e v by simp
qed

text \<open>
  C8, as stated, fails when repairs are allowed: a hunk with no body lines whose header
  declares the spans 2 and 3 is accepted, after the repair.
\<close>

theorem C8_empty_body_counterexample:
  "result_of (validate_hunk 0 \<lparr>header = ''@@ -1,2 +1,3 @@\<newline>'', body = []\<rparr>
     ''diff --git a b\<newline>'' True) =
     Inr (True, \<lparr>header = ''@@ -0,0 +0,0 @@\<newline>'', body = []\<rparr>) \<and>
   header_spans (header \<lparr>header = ''@@ -1,2 +1,3 @@\<newline>'', body = []\<rparr>) = Some (2, 3)"
proof -
  have m: "match_header (header \<lparr>header = ''@@ -1,2 +1,3 @@\<newline>'', body = []\<rparr>) =
      Some (''2'', ''3'', ''\<newline>'')"
    by (simp add: eval_defs)
  show ?thesis
    using validate_hunk_readable(1) [OF m, of 0 "''diff --git a b\<newline>''" True]
    by (simp add: eval_defs formattable_def span_text_def str_nat.simps digit_char_def)
qed

text \<open>
  C8, amended. For a hunk with no body lines whose header, where it matches the pattern,
  writes neither span with more than 4300 digits: with repairs disallowed the validator
  accepts it exactly when the header declares both spans as 0; with repairs allowed it
  accepts it exactly when the header matches the pattern, and the header it leaves then
  declares both spans as 0.
\<close>

theorem C8_empty_body:
  assumes "body hunk = []"
    and "spans_readable (header hunk)"
  shows "(map_option fst (returned (validate_hunk it hunk file_header False)) = Some True \<longleftrightarrow>
            header_spans (header hunk) = Some (0, 0)) \<and>
         (map_option fst (returned (validate_hunk it hunk file_header True)) = Some True \<longleftrightarrow>
            match_header (header hunk) \<noteq> None) \<and>
         (match_header (header hunk) \<noteq> None \<longrightarrow>
            (\<exists>hunk2. returned (validate_hunk it hunk file_header True) = Some (True, hunk2) \<and>
               header_spans (header hunk2) = Some (0, 0)))"
proof -
  have e: "expected_spans hunk = (0, 0)" and u: "kind_count Unexpected (body hunk) = 0"
    using assms(1) by (simp_all add: expected_spans_kinds kind_count_def)
  have f: "formattable (expected_spans hunk)"
    unfolding e by (rule formattable_small) (simp_all add: int_max_str_digits_def)
  have hs: "header_spans (header hunk) \<noteq> None \<longleftrightarrow> match_header (header hunk) \<noteq> None"
    using assms(2) by (auto simp: header_spans_readable spans_readable_def split: option.splits)
  have 1: "map_option fst (returned (validate_hunk it hunk file_header False)) = Some True \<longleftrightarrow>
            header_spans (header hunk) = Some (0, 0)"
    by (auto simp: validate_hunk_returned header_spans_readable e u split: option.splits if_splits)
  have 3: "\<exists>hunk2. returned (validate_hunk it hunk file_header True) = Some (True, hunk2) \<and>
               header_spans (header hunk2) = Some (0, 0)"
    if "match_header (header hunk) \<noteq> None"
  proof -
    from that hs obtain declared where d: "header_spans (header hunk) = Some declared"
      by auto
    show ?thesis
    proof (cases "declared = (0, 0)")
      case True
      then show ?thesis
        using settled_within_limit(1) [of hunk it file_header True] d e u
        by (simp add: returned_result_of)
    next
      case False
      then have "expected_spans hunk \<noteq> declared"
        using e by simp
      from repair_within_limit(1) [OF d this f, of it file_header] show ?thesis
        using e by (auto simp: returned_result_of)
    qed
  qed
  have 2: "map_option fst (returned (validate_hunk it hunk file_header True)) = Some True \<longleftrightarrow>
            match_header (header hunk) \<noteq> None"
  proof
    assume "map_option fst (returned (validate_hunk it hunk file_header True)) = Some True"
    then show "match_header (header hunk) \<noteq> None"
      by (auto simp: validate_hunk_returned split: option.splits)
  next
    assume "match_header (header hunk) \<noteq> None"
    from 3 [OF this] show "map_option fst (returned (validate_hunk it hunk file_header True)) = Some True"
      by auto
  qed
  show ?thesis
    using 1 2 3 by blast
qed

theorem C8_empty_body_witness:
  "map_option fst (returned (validate_hunk 0 \<lparr>header = ''@@ -5,0 +5,0 @@\<newline>'', body = []\<rparr>
      ''diff --git a b\<newline>'' False)) = Some True \<and>
   map_option fst (returned (validate_hunk 0 \<lparr>header = ''@@ -1,2 +1,3 @@\<newline>'', body = []\<rparr>
      ''diff --git a b\<newline>'' True)) = Some True"
  using C8_empty_body [of "\<lparr>header = ''@@ -5,0 +5,0 @@\<newline>'', body = []\<rparr>" 0 "''diff --git a b\<newline>''",
      THEN conjunct1]
    C8_empty_body [of "\<lparr>header = ''@@ -1,2 +1,3 @@\<newline>'', body = []\<rparr>" 0 "''diff --git a b\<newline>''",
      THEN conjunct2, THEN conjunct1]
  by (simp add: eval_defs)

section \<open>The iterative mode\<close>

lemma repair_pass_error:
  assumes "repair_pass it text ar = Inl e"
  shows "e = ValueError"
proof -
  obtain ls es1 where c: "basic_clean it text = (ls, es1)"
    by (cases "basic_clean it text")
  obtain fs es2 where p: "parse_diff it ls = (fs, es2)"
    by (cases "parse_diff it ls")
  have "filter_or_repair_files it fs ar = Inl e"
    using assms unfolding repair_pass_def c prod.case p
    by (simp split: sum.splits prod.splits)
  then show ?thesis
    using filter_or_repair_files_result [of it fs ar]
    by (simp add: result_of_def split: if_splits)
qed

lemma iter_loop_error: "iter_loop git vg rounds st = Inl e \<Longrightarrow> e = ValueError"
proof (induction rounds arbitrary: st)
  case Nil
  then show ?case by simp
next
  case (Cons i rest)
  show ?case
  proof (cases "repair_pass i (patch_text st) True")
    case (Inl e')
    then show ?thesis
      using Cons.prems repair_pass_error [OF Inl] by simp
  next
    case (Inr r)
    obtain fs new es where r: "r = ((fs, new), es)"
      by (cases r) auto
    obtain gr eg where g: "(if vg
                 then (case git_validate (git i) i new of (r, eg) \<Rightarrow> (Some r, eg))
                 else (git_result st, [])) = (gr, eg)"
      by (cases "(if vg
                 then (case git_validate (git i) i new of (r, eg) \<Rightarrow> (Some r, eg))
                 else (git_result st, []))") auto
    show ?thesis
    proof (cases "last_patch_text st = Some new \<or> gr = Some ''ok''")
      case True
      then show ?thesis
        using Cons.prems by (auto simp: Inr r g Let_def split: if_splits)
    next
      case False
      then show ?thesis
        using Cons.prems Cons.IH by (auto simp: Inr r g Let_def)
    qed
  qed
qed

lemma iter_loop_binds:
  "rounds \<noteq> [] \<Longrightarrow> iter_loop git vg rounds st = Inr st' \<Longrightarrow>
     \<exists>i \<in> set rounds. loop_iteration st' = Some i"
proof (induction rounds arbitrary: st)
  case Nil
  then show ?case by simp
next
  case (Cons i rest)
  show ?case
  proof (cases "repair_pass i (patch_text st) True")
    case (Inl e')
    then show ?thesis
      using Cons.prems by simp
  next
    case (Inr r)
    obtain fs new es where r: "r = ((fs, new), es)"
      by (cases r) auto
    obtain gr eg where g: "(if vg
                 then (case git_validate (git i) i new of (r, eg) \<Rightarrow> (Some r, eg))
                 else (git_result st, [])) = (gr, eg)"
      by (cases "(if vg
                 then (case git_validate (git i) i new of (r, eg) \<Rightarrow> (Some r, eg))
                 else (git_result st, []))") auto
    show ?thesis
    proof (cases "last_patch_text st = Some new \<or> gr = Some ''ok''")
      case True
      then show ?thesis
        using Cons.prems(2) by (auto simp: Inr r g Let_def split: if_splits)
    next
      case False
      show ?thesis
      proof (cases "rest = []")
        case True
        with False show ?thesis
          using Cons.prems(2) by (auto simp: Inr r g Let_def)
      next
        case nonempty: False
        have "iter_loop git vg rest
                (st\<lparr>patch_text := new, git_result := gr, last_patch_text := Some new,
                    loop_iteration := Some i,
                    plan := (plan st @
                      [log i ''ITERATION_START'' ''meta'' ''Starting repair iteration''
                         [(''iteration'', JInt (int i))]] @ es @ eg) @
                      [log i ''ITERATION_END'' ''meta'' ''Completed repair iteration''
                         [(''iteration'', JInt (int i)), (''git_validation'', jopt gr)]]\<rparr>) = Inr st'"
          using Cons.prems(2) False by (simp add: Inr r g Let_def)
        from Cons.IH [OF nonempty this] show ?thesis
          by auto
      qed
    qed
  qed
qed

lemma run_iterative_positive_cap:
  assumes "0 < max_iterations"
  shows "run_iterative original git vg max_iterations = Inl ValueError \<or>
         (\<exists>r. run_iterative original git vg max_iterations = Inr r \<and>
            0 < iterations_run r \<and> int (iterations_run r) \<le> max_iterations)"
proof (cases "iter_loop git vg [0..<nat max_iterations]
                 \<lparr>patch_text = original, git_result = None, last_patch_text = None,
                  loop_iteration = None, plan = []\<rparr>")
  case (Inl e)
  then show ?thesis
    using iter_loop_error [OF Inl] by (simp add: run_iterative_def)
next
  case (Inr st')
  from assms have "[0..<nat max_iterations] \<noteq> []" by simp
  from iter_loop_binds [OF this Inr] obtain i where
    i: "i < nat max_iterations" and l: "loop_iteration st' = Some i"
    by auto
  show ?thesis
    using i by (simp add: run_iterative_def Inr l)
qed

text \<open>
  C5 fails for the cap 0, which \<open>--max-iters 0\<close> sets: the loop body never runs,
  \<open>iteration\<close> is never bound, and reading \<open>iteration + 1\<close> for the summary raises
  \<open>UnboundLocalError\<close>, whatever the input. For a positive cap
  (\<open>run_iterative_positive_cap\<close>) the run either returns a summary whose \<open>iterations_run\<close>
  is at most the cap, or raises the \<open>ValueError\<close> of \<open>validate_hunk\<close>.
\<close>

theorem C5_zero_cap_aborts:
  "run_iterative original git validate_with_git 0 = Inl UnboundLocalError"
  by (simp add: run_iterative_def)

section \<open>What the cleaner returns\<close>

lemma trim_loop_fst: "fst (trim_loop it n ls) = map normalize_line ls"
proof (induction ls arbitrary: n)
  case Nil
  show ?case by simp
next
  case (Cons l ls)
  show ?case
    using Cons.IH [of "Suc n"] by (cases "trim_loop it (Suc n) ls") auto
qed

lemma trim_loop_events:
  "e \<in> set (snd (snd (trim_loop it n ls))) \<longleftrightarrow>
     (\<exists>i < length ls. rstrip (ls ! i) \<noteq> ls ! i \<and> e = trimmed_event it (n + i) (ls ! i))"
proof (induction ls arbitrary: n)
  case Nil
  show ?case by simp
next
  case (Cons l ls)
  have "e \<in> set (snd (snd (trim_loop it n (l # ls)))) \<longleftrightarrow>
      (rstrip l \<noteq> l \<and> e = trimmed_event it n l) \<or>
      e \<in> set (snd (snd (trim_loop it (Suc n) ls)))"
    by (cases "trim_loop it (Suc n) ls") simp
  also have "\<dots> \<longleftrightarrow>
      (rstrip l \<noteq> l \<and> e = trimmed_event it n l) \<or>
      (\<exists>j < length ls. rstrip (ls ! j) \<noteq> ls ! j \<and> e = trimmed_event it (Suc n + j) (ls ! j))"
    by (simp only: Cons.IH)
  also have "\<dots> \<longleftrightarrow>
      (\<exists>i < length (l # ls). rstrip ((l # ls) ! i) \<noteq> (l # ls) ! i \<and>
         e = trimmed_event it (n + i) ((l # ls) ! i))"
    by (simp add: Ex_less_Suc2)
  finally show ?case .
qed

lemma drop_eof_subset: "set (fst (drop_eof ls d)) \<subseteq> set ls"
proof (induction ls d rule: drop_eof.induct)
  case (1 lines dropped)
  show ?case
  proof (cases "lines \<noteq> [] \<and> prefix ''+'' (last lines) \<and> strip (last lines) = ''+''")
    case True
    with 1 have "set (fst (drop_eof (butlast lines) (Suc dropped))) \<subseteq> set (butlast lines)"
      by simp
    moreover have "set (butlast lines) \<subseteq> set lines"
      by (auto dest: in_set_butlastD)
    ultimately show ?thesis
      using True by (subst drop_eof.simps) auto
  next
    case False
    then show ?thesis by (subst drop_eof.simps) auto
  qed
qed

lemma strip_preamble_fst: "fst (strip_preamble it ls) = fst (strip_preamble 0 ls)"
  by (simp add: strip_preamble_def split: option.splits nat.splits)

lemma basic_clean_fst:
  "fst (basic_clean it text) = fst (drop_eof (map normalize_line (clean_input text)) 0)"
proof -
  obtain l1 e where s: "strip_preamble it (splitlines text) = (l1, e)"
    by (cases "strip_preamble it (splitlines text)")
  then have l1: "l1 = clean_input text"
    using strip_preamble_fst [of it "splitlines text"] by (simp add: clean_input_def)
  obtain c t ev where t: "trim_loop it 1 l1 = (c, t, ev)"
    by (cases "trim_loop it 1 l1")
  then have c: "c = map normalize_line l1"
    using trim_loop_fst [of it 1 l1] by simp
  obtain l2 d where d: "drop_eof c 0 = (l2, d)"
    by (cases "drop_eof c 0")
  have "fst (basic_clean it text) = l2"
    unfolding basic_clean_def Let_def s prod.case t d by simp
  then show ?thesis
    using d by (simp add: c l1)
qed

lemma trimmed_event_code: "code (trimmed_event it j l) = ''WHITESPACE_TRIMMED''"
  by (simp add: trimmed_event_def log_def)

lemma basic_clean_trimmed_events:
  "e \<in> set (snd (basic_clean it text)) \<and> code e = ''WHITESPACE_TRIMMED'' \<longleftrightarrow>
     (\<exists>i < length (clean_input text).
        rstrip (clean_input text ! i) \<noteq> clean_input text ! i \<and>
        e = trimmed_event it (Suc i) (clean_input text ! i))"
proof -
  obtain l1 ep where s: "strip_preamble it (splitlines text) = (l1, ep)"
    by (cases "strip_preamble it (splitlines text)")
  then have l1: "l1 = clean_input text"
    using strip_preamble_fst [of it "splitlines text"] by (simp add: clean_input_def)
  have ce: "code ep \<noteq> ''WHITESPACE_TRIMMED''"
    using s by (auto simp: strip_preamble_def log_def split: option.splits nat.splits)
  obtain c t ev where t: "trim_loop it 1 l1 = (c, t, ev)"
    by (cases "trim_loop it 1 l1")
  then have ev: "e \<in> set ev \<longleftrightarrow>
     (\<exists>i < length l1. rstrip (l1 ! i) \<noteq> l1 ! i \<and> e = trimmed_event it (Suc i) (l1 ! i))"
    using trim_loop_events [of e it 1 l1] by simp
  have code_ev: "e \<in> set ev \<Longrightarrow> code e = ''WHITESPACE_TRIMMED''"
    unfolding ev by (auto simp: trimmed_event_code)
  obtain l2 d where d: "drop_eof c 0 = (l2, d)"
    by (cases "drop_eof c 0")
  have "snd (basic_clean it text) =
      [log it ''BASIC_CLEAN_START'' ''basic_clean'' ''Starting basic_clean''
         [(''line_count'', JInt (int (length (splitlines text))))], ep] @ ev @
      [log it ''WHITESPACE_TRIM_SUMMARY'' ''basic_clean'' ''Trailing whitespace trimming summary''
         [(''trimmed_lines'', JInt (int t))],
       log it ''EOF_PLUS_BLANK_DROPPED'' ''basic_clean'' ''Dropped trailing '+ blank' lines at EOF''
         [(''dropped_lines'', JInt (int d))],
       log it ''BASIC_CLEAN_END'' ''basic_clean'' ''Finished basic_clean''
         [(''line_count'', JInt (int (length l2)))]]"
    unfolding basic_clean_def Let_def s prod.case t d by simp
  then have "e \<in> set (snd (basic_clean it text)) \<and> code e = ''WHITESPACE_TRIMMED'' \<longleftrightarrow> e \<in> set ev"
    using ce code_ev by (auto simp: log_def)
  then show ?thesis by (simp add: ev l1)
qed

lemma is_space_LF: "is_space LF"
  by (simp add: is_space_def LF_def)

lemma rstrip_idem: "rstrip (rstrip s) = rstrip s"
  by (simp add: rstrip_def dropWhile_idem)

lemma rstrip_snoc_space: "is_space c \<Longrightarrow> rstrip (s @ [c]) = rstrip s"
  by (simp add: rstrip_def)

lemma rstrip_no_trailing: "rstrip s = [] \<or> \<not> is_space (last (rstrip s))"
proof (cases "dropWhile is_space (rev s)")
  case Nil
  then show ?thesis by (simp add: rstrip_def)
next
  case (Cons c cs)
  then have "\<not> is_space c"
    using hd_dropWhile [of is_space "rev s"] by auto
  with Cons show ?thesis by (simp add: rstrip_def)
qed

lemma normalize_line_shape: "normalize_line l = rstrip (normalize_line l) @ [LF]"
  by (simp add: normalize_line_def rstrip_snoc_space is_space_LF rstrip_idem)

lemma escape_newlines_no_LF: "LF \<notin> set (escape_newlines s)"
  by (induction s) (auto simp: escape_newlines_def LF_def BACKSLASH_def)

lemma preview_no_LF: "LF \<notin> set (preview s)"
proof -
  have "set (take 80 (escape_newlines s)) \<subseteq> set (escape_newlines s)"
    by (rule set_take_subset)
  then have "LF \<notin> set (take 80 (escape_newlines s))"
    using escape_newlines_no_LF [of s] by blast
  then show ?thesis
    using escape_newlines_no_LF [of s] by (auto simp: preview_def Let_def LF_def)
qed

lemma preview_length: "length (preview s) \<le> 83"
  by (simp add: preview_def Let_def)

lemma preview_short: "length (escape_newlines s) \<le> 80 \<Longrightarrow> preview s = escape_newlines s"
  by (simp add: preview_def)

lemma trimmed_event_number: "trimmed_event it j l = trimmed_event it j' l' \<Longrightarrow> j = j'"
  by (simp add: trimmed_event_def log_def)

lemmas clean_eval =
  basic_clean_fst clean_input_def strip_preamble_def normalize_line_def rstrip_def rstrip_nl_def
  strip_def is_space_def is_linebreak_def LF_def CR_def drop_eof.simps

lemmas input_eval =
  clean_input_def strip_preamble_def rstrip_def rstrip_nl_def is_space_def is_linebreak_def
  LF_def CR_def

text \<open>
  C10. Every line that \<open>basic_clean\<close> returns is its own \<open>rstrip()\<close> followed by one
  newline: it ends in exactly one line terminator and carries no other trailing
  whitespace.
\<close>

theorem C10_cleaned_lines_normalized:
  "\<forall>line \<in> set (fst (basic_clean it text)).
     line = rstrip line @ [LF] \<and> (rstrip line = [] \<or> \<not> is_space (last (rstrip line)))"
proof
  fix line
  assume "line \<in> set (fst (basic_clean it text))"
  then have "line \<in> set (map normalize_line (clean_input text))"
    using drop_eof_subset [of "map normalize_line (clean_input text)" 0]
    by (auto simp: basic_clean_fst)
  then obtain l where "line = normalize_line l" by auto
  then show "line = rstrip line @ [LF] \<and> (rstrip line = [] \<or> \<not> is_space (last (rstrip line)))"
    using normalize_line_shape [of l] rstrip_no_trailing [of line] by simp
qed

theorem C10_cleaned_lines_normalized_witness:
  "fst (basic_clean 0 ''junk\<newline>diff --git a b  \<newline>+x'') = [''diff --git a b\<newline>'', ''+x\<newline>''] \<and>
   ''diff --git a b\<newline>'' = rstrip ''diff --git a b\<newline>'' @ [LF] \<and>
   ''+x\<newline>'' = rstrip ''+x\<newline>'' @ [LF]"
proof -
  have c: "fst (basic_clean 0 ''junk\<newline>diff --git a b  \<newline>+x'') = [''diff --git a b\<newline>'', ''+x\<newline>'']"
    by (simp add: clean_eval)
  show ?thesis
    using C10_cleaned_lines_normalized [of 0 "''junk\<newline>diff --git a b  \<newline>+x''", THEN bspec,
        of "''diff --git a b\<newline>''"]
      C10_cleaned_lines_normalized [of 0 "''junk\<newline>diff --git a b  \<newline>+x''", THEN bspec,
        of "''+x\<newline>''"]
    unfolding c by simp
qed

lemma preview_long:
  "80 < length (escape_newlines s) \<Longrightarrow> preview s = take 80 (escape_newlines s) @ ''...''"
  by (simp add: preview_def)

text \<open>
  C9 fails on the one-line text \<open>a\n\<close>: the cleaner logs a whitespace-trim event for
  line 1 although the normalization leaves the line as it was. The event is logged when
  \<open>line.rstrip() != line\<close>, which holds of every line that ends in its newline, and not
  when \<open>line.rstrip("\n").rstrip() + "\n"\<close> differs from the line. The other way round,
  the unterminated line \<open>a\<close> is changed to \<open>a\n\<close> and no event is logged.
\<close>

theorem C9_trim_event_without_change:
  "splitlines ''a\<newline>'' = [''a\<newline>''] \<and>
   fst (basic_clean 0 ''a\<newline>'') = [''a\<newline>''] \<and>
   map code (snd (basic_clean 0 ''a\<newline>'')) =
     [''BASIC_CLEAN_START'', ''PREAMBLE_NONE'', ''WHITESPACE_TRIMMED'', ''WHITESPACE_TRIM_SUMMARY'',
      ''EOF_PLUS_BLANK_DROPPED'', ''BASIC_CLEAN_END''] \<and>
   trimmed_event 0 1 ''a\<newline>'' \<in> set (snd (basic_clean 0 ''a\<newline>'')) \<and>
   splitlines ''a'' = [''a''] \<and>
   fst (basic_clean 0 ''a'') = [''a\<newline>''] \<and>
   map code (snd (basic_clean 0 ''a'')) =
     [''BASIC_CLEAN_START'', ''PREAMBLE_NONE'', ''WHITESPACE_TRIM_SUMMARY'',
      ''EOF_PLUS_BLANK_DROPPED'', ''BASIC_CLEAN_END'']"
proof -
  have s: "splitlines ''a\<newline>'' = [''a\<newline>'']" "splitlines ''a'' = [''a'']"
    by (simp_all add: is_linebreak_def LF_def CR_def)
  have p: "strip_preamble 0 [''a\<newline>''] =
      ([''a\<newline>''], log 0 ''PREAMBLE_NONE'' ''basic_clean''
         ''No preamble detected before first diff --git'' [])"
    "strip_preamble 0 [''a''] =
      ([''a''], log 0 ''PREAMBLE_NONE'' ''basic_clean''
         ''No preamble detected before first diff --git'' [])"
    by (simp_all add: strip_preamble_def)
  have t: "trim_loop 0 1 [''a\<newline>''] = ([''a\<newline>''], 1, [trimmed_event 0 1 ''a\<newline>''])"
    "trim_loop 0 1 [''a''] = ([''a\<newline>''], 0, [])"
    by (simp_all add: normalize_line_def rstrip_def rstrip_nl_def is_space_def LF_def)
  have d: "drop_eof [''a\<newline>''] 0 = ([''a\<newline>''], 0)"
    by (simp add: drop_eof.simps)
  have 1: "basic_clean 0 ''a\<newline>'' =
      ([''a\<newline>''],
       [log 0 ''BASIC_CLEAN_START'' ''basic_clean'' ''Starting basic_clean''
          [(''line_count'', JInt 1)],
        log 0 ''PREAMBLE_NONE'' ''basic_clean'' ''No preamble detected before first diff --git'' [],
        trimmed_event 0 1 ''a\<newline>'',
        log 0 ''WHITESPACE_TRIM_SUMMARY'' ''basic_clean'' ''Trailing whitespace trimming summary''
          [(''trimmed_lines'', JInt 1)],
        log 0 ''EOF_PLUS_BLANK_DROPPED'' ''basic_clean'' ''Dropped trailing '+ blank' lines at EOF''
          [(''dropped_lines'', JInt 0)],
        log 0 ''BASIC_CLEAN_END'' ''basic_clean'' ''Finished basic_clean''
          [(''line_count'', JInt 1)]])"
    unfolding basic_clean_def Let_def s p prod.case t d by simp
  have 2: "basic_clean 0 ''a'' =
      ([''a\<newline>''],
       [log 0 ''BASIC_CLEAN_START'' ''basic_clean'' ''Starting basic_clean''
          [(''line_count'', JInt 1)],
        log 0 ''PREAMBLE_NONE'' ''basic_clean'' ''No preamble detected before first diff --git'' [],
        log 0 ''WHITESPACE_TRIM_SUMMARY'' ''basic_clean'' ''Trailing whitespace trimming summary''
          [(''trimmed_lines'', JInt 0)],
        log 0 ''EOF_PLUS_BLANK_DROPPED'' ''basic_clean'' ''Dropped trailing '+ blank' lines at EOF''
          [(''dropped_lines'', JInt 0)],
        log 0 ''BASIC_CLEAN_END'' ''basic_clean'' ''Finished basic_clean''
          [(''line_count'', JInt 1)]])"
    unfolding basic_clean_def Let_def s p prod.case t d by simp
  show ?thesis
    unfolding 1 2 using s by (simp add: log_def trimmed_event_def)
qed

section \<open>A second pass over a rendered document\<close>



























































lemma expected_spans_header: "expected_spans (h\<lparr>header := x\<rparr>) = expected_spans h"
  by (simp add: expected_spans_kinds)
























end
